theory Spec2Isabelle
  imports Complex_Main
begin

section \<open>Geometry values handed to the mesh preparation\<close>

text \<open>
  Python floats are read as real numbers throughout: rounding, infinities and NaN are
  outside the model.

  A coordinate tuple of the geometry library is \<open>(x, y)\<close> or \<open>(x, y, z)\<close>.
  A simple line (\<open>LineString\<close>) is its coordinate sequence; a real one is empty or has
  at least two coordinates. A multi-part line is a list of simple lines.
\<close>

datatype coord = Coord (cx: real) (cy: real) (cz: "real option")

type_synonym linestring = "coord list"

datatype shape = LineString linestring | MultiLineString "linestring list"

datatype error = ValueError | ZeroDivisionError | IndexError
  | NotImplementedError | AttributeError

text \<open>\<open>tuple(c)\<close>, the row that \<open>np.array\<close> makes of a coordinate.\<close>

fun row :: "coord \<Rightarrow> real list" where
  "row (Coord x y None) = [x, y]"
| "row (Coord x y (Some z)) = [x, y, z]"

subsection \<open>The library's length and interpolation of a line\<close>

text \<open>
  \<open>line.length\<close> is the sum of the planar Euclidean lengths of the segments, and
  \<open>line.interpolate(d)\<close> is the point at arc length \<open>d\<close> from the start: the walk
  over the segments that the library performs, which stops in the first segment that
  reaches beyond \<open>d\<close>, returns the start for \<open>d \<le> 0\<close> and the end when \<open>d\<close> is
  the whole length or more. A negative \<open>d\<close> is measured back from the end.
\<close>

definition seg_len :: "coord \<Rightarrow> coord \<Rightarrow> real" where
  "seg_len p q = sqrt ((cx q - cx p)\<^sup>2 + (cy q - cy p)\<^sup>2)"

fun line_length :: "linestring \<Rightarrow> real" where
  "line_length [] = 0"
| "line_length [p] = 0"
| "line_length (p # q # rest) = seg_len p q + line_length (q # rest)"

definition along :: "coord \<Rightarrow> coord \<Rightarrow> real \<Rightarrow> coord" where
  "along p q t =
     Coord (cx p + t * (cx q - cx p)) (cy p + t * (cy q - cy p))
       (case (cz p, cz q) of
          (Some a, Some b) \<Rightarrow> Some (a + t * (b - a))
        | _ \<Rightarrow> None)"

fun walk :: "coord \<Rightarrow> coord list \<Rightarrow> real \<Rightarrow> coord" where
  "walk p [] d = p"
| "walk p (q # rest) d =
     (if d \<le> 0 then p
      else if d < seg_len p q then along p q (d / seg_len p q)
      else walk q rest (d - seg_len p q))"

definition interpolate :: "coord \<Rightarrow> coord list \<Rightarrow> real \<Rightarrow> coord" where
  "interpolate p rest d =
     (if d < 0 then walk p rest (line_length (p # rest) + d) else walk p rest d)"

section \<open>grader\<close>

text \<open>
  \<open>int(x)\<close> of a float truncates towards zero, and \<open>range(n)\<close> is empty for
  \<open>n \<le> 0\<close>.
\<close>

definition py_int :: "real \<Rightarrow> int" where
  "py_int x = (if 0 \<le> x then \<lfloor>x\<rfloor> else \<lceil>x\<rceil>)"

definition py_range :: "int \<Rightarrow> nat list" where
  "py_range n = [0..<nat n]"

text \<open>
  \<open>shp.LineString(coords)\<close> refuses fewer than two coordinate tuples.
\<close>

definition LineString_new :: "coord list \<Rightarrow> error + linestring" where
  "LineString_new coords = (if length coords < 2 then Inl ValueError else Inr coords)"

text \<open>
  The distances handed to \<open>interpolate\<close> by the list comprehension of \<open>grader\<close>:
  \<open>i * target_length\<close> for \<open>i\<close> in \<open>range(int(line.length / target_length))\<close>.
\<close>

definition grader_dists :: "linestring \<Rightarrow> real \<Rightarrow> real list" where
  "grader_dists line target_length =
     map (\<lambda>i. real i * target_length) (py_range (py_int (line_length line / target_length)))"

text \<open>
  The coordinates that \<open>grader\<close> builds for a non-empty line: the interpolated samples,
  then \<open>line.coords[-1]\<close>.
\<close>

definition grader_coords :: "coord \<Rightarrow> coord list \<Rightarrow> real \<Rightarrow> coord list" where
  "grader_coords p rest target_length =
     map (interpolate p rest) (grader_dists (p # rest) target_length) @ [last (p # rest)]"

definition not_a_line_msg :: string where
  "not_a_line_msg = ''Input type is not a line. Exit function.''"

text \<open>
  \<open>grader(shapein, type, target_length)\<close>. The result is the printed lines together with
  the outcome: an exception, or the returned value, where \<open>None\<close> is Python's \<open>None\<close>.
  The float division raises for a zero spacing; an empty line has no \<open>coords[-1]\<close>;
  a multi-part geometry has a length and can be interpolated, but gives no coordinate
  sequence.
\<close>

fun grader :: "shape \<Rightarrow> string \<Rightarrow> real \<Rightarrow> string list \<times> (error + linestring option)" where
  "grader shapein type target_length =
     (if type = ''line'' then
        (if target_length = 0 then ([], Inl ZeroDivisionError)
         else case shapein of
           LineString [] \<Rightarrow> ([], Inl IndexError)
         | LineString (p # rest) \<Rightarrow>
             ([], map_sum id Some (LineString_new (grader_coords p rest target_length)))
         | MultiLineString parts \<Rightarrow> ([], Inl NotImplementedError))
      else ([not_a_line_msg], Inr None))"

section \<open>triMeshgen: the data handed to the triangulation\<close>

text \<open>
  A polygon is its exterior ring and the rings of its holes; a ring is a closed coordinate
  sequence, the first coordinate repeated at the end. Its \<open>boundary\<close> is a simple line
  when it has no hole and a multi-part line of all its rings otherwise. A geometry of
  polygons is one polygon or a multi-part collection of them (an empty collection is
  \<open>MultiPolygon []\<close>).
\<close>

record polygon =
  exterior :: linestring
  interiors :: "linestring list"

datatype areal = Polygon polygon | MultiPolygon "polygon list"

definition boundary :: "polygon \<Rightarrow> shape" where
  "boundary poly =
     (if interiors poly = [] then LineString (exterior poly)
      else MultiLineString (exterior poly # interiors poly))"

text \<open>
  Buffering, union, simplification and the choice of a representative point are the
  geometry library's: they are parameters of the model, and every theorem about
  \<open>triMeshgen\<close> holds for whatever they return.
\<close>

record geometry_library =
  buffer :: "linestring \<Rightarrow> real \<Rightarrow> areal"
  cascaded_union :: "areal list \<Rightarrow> areal"
  simplify :: "areal \<Rightarrow> real \<Rightarrow> areal"
  representative_point :: "polygon \<Rightarrow> coord"

text \<open>
  \<open>tri_data\<close>, the dictionary given to the triangulation: the vertex rows, the
  segments as pairs of row indices, and the regions entry when there is one.
\<close>

record tri_data =
  vertices :: "real list list"
  segments :: "(nat \<times> nat) list"
  regions :: "real list option"

subsection \<open>Flattening and grading the inputs (source lines 50 to 79)\<close>

text \<open>
  The loops that fill \<open>lines_new\<close> and \<open>polygons_new\<close>, one equation per branch of
  the type test; \<open>keep_long\<close> is the inner loop over the parts of a multi-part line.
\<close>

fun keep_long :: "linestring list \<Rightarrow> real \<Rightarrow> linestring list \<Rightarrow> linestring list" where
  "keep_long [] target_length lines_new = lines_new"
| "keep_long (part # parts) target_length lines_new =
     keep_long parts target_length
       (if line_length part > 1.5 * target_length then lines_new @ [part] else lines_new)"

fun lines_new_loop :: "shape list \<Rightarrow> real \<Rightarrow> linestring list \<Rightarrow> linestring list" where
  "lines_new_loop [] target_length lines_new = lines_new"
| "lines_new_loop (LineString line # lines) target_length lines_new =
     lines_new_loop lines target_length
       (if line_length line > 1.5 * target_length then lines_new @ [line] else lines_new)"
| "lines_new_loop (MultiLineString parts # lines) target_length lines_new =
     lines_new_loop lines target_length (keep_long parts target_length lines_new)"

definition lines_new :: "shape list \<Rightarrow> real \<Rightarrow> linestring list" where
  "lines_new lines target_length = lines_new_loop lines target_length []"

fun polygons_new_loop :: "areal list \<Rightarrow> polygon list \<Rightarrow> polygon list" where
  "polygons_new_loop [] polygons_new = polygons_new"
| "polygons_new_loop (Polygon poly # polygons) polygons_new =
     polygons_new_loop polygons (polygons_new @ [poly])"
| "polygons_new_loop (MultiPolygon parts # polygons) polygons_new =
     polygons_new_loop polygons (polygons_new @ parts)"

definition polygons_new :: "areal list \<Rightarrow> polygon list" where
  "polygons_new polygons = polygons_new_loop polygons []"

text \<open>
  A call \<open>grader(shape, type = 'line', target_length)\<close> inside \<open>triMeshgen\<close>: an
  exception ends the run. The call never returns \<open>None\<close> here (the type is
  \<open>'line'\<close>); a \<open>None\<close> in the list would fail at its first use.
  Graded boundaries of the \<open>polygons\<close> argument are appended to the graded lines.
\<close>

definition graded :: "shape \<Rightarrow> real \<Rightarrow> error + linestring" where
  "graded shapein target_length =
     (case snd (grader shapein ''line'' target_length) of
        Inl e \<Rightarrow> Inl e
      | Inr None \<Rightarrow> Inl AttributeError
      | Inr (Some line) \<Rightarrow> Inr line)"

fun grade_all :: "shape list \<Rightarrow> real \<Rightarrow> error + linestring list" where
  "grade_all [] target_length = Inr []"
| "grade_all (shapein # shapes) target_length =
     (case graded shapein target_length of
        Inl e \<Rightarrow> Inl e
      | Inr line \<Rightarrow>
          (case grade_all shapes target_length of
             Inl e \<Rightarrow> Inl e
           | Inr lines \<Rightarrow> Inr (line # lines)))"

definition graded_lines :: "shape list \<Rightarrow> areal list \<Rightarrow> real \<Rightarrow> error + linestring list" where
  "graded_lines lines polygons target_length =
     (case grade_all (map LineString (lines_new lines target_length)) target_length of
        Inl e \<Rightarrow> Inl e
      | Inr lines1 \<Rightarrow>
          (case grade_all (map boundary (polygons_new polygons)) target_length of
             Inl e \<Rightarrow> Inl e
           | Inr polys1 \<Rightarrow> Inr (lines1 @ polys1)))"

subsection \<open>Buffers, representative points and buffer boundaries (source lines 84 to 116)\<close>

text \<open>
  \<open>rep_points_loop\<close> is the loop over \<open>range(len(buf_union))\<close>; each round reads
  \<open>buf_union[1]\<close>, which raises when the collection has fewer than two parts.
\<close>

definition buf_union_of :: "geometry_library \<Rightarrow> linestring list \<Rightarrow> real \<Rightarrow> real \<Rightarrow> areal" where
  "buf_union_of lib lines target_length buffer_dist =
     simplify lib (cascaded_union lib (map (\<lambda>line. buffer lib line buffer_dist) lines))
       (target_length / 2)"

fun rep_points_loop ::
  "geometry_library \<Rightarrow> polygon list \<Rightarrow> nat list \<Rightarrow> real \<Rightarrow> real list list
     \<Rightarrow> error + real list list" where
  "rep_points_loop lib parts [] area_in_buffer rep_points = Inr rep_points"
| "rep_points_loop lib parts (i # is) area_in_buffer rep_points =
     (if 1 < length parts then
        rep_points_loop lib parts is area_in_buffer
          (rep_points @ [row (representative_point lib (parts ! 1)) @ [0, area_in_buffer]])
      else Inl IndexError)"

definition rep_points_of :: "geometry_library \<Rightarrow> areal \<Rightarrow> real \<Rightarrow> error + real list list" where
  "rep_points_of lib buf_union area_in_buffer =
     (case buf_union of
        Polygon poly \<Rightarrow> Inr [row (representative_point lib poly) @ [0, area_in_buffer]]
      | MultiPolygon parts \<Rightarrow>
          rep_points_loop lib parts [0..<length parts] area_in_buffer [])"

definition boundary_lines :: "polygon \<Rightarrow> linestring list" where
  "boundary_lines poly =
     (case boundary poly of LineString ring \<Rightarrow> [ring] | MultiLineString rings \<Rightarrow> rings)"

fun buf_lines_loop :: "polygon list \<Rightarrow> linestring list \<Rightarrow> linestring list" where
  "buf_lines_loop [] buf_lines = buf_lines"
| "buf_lines_loop (poly # parts) buf_lines = buf_lines_loop parts (buf_lines @ boundary_lines poly)"

definition buf_lines_of :: "areal \<Rightarrow> linestring list" where
  "buf_lines_of buf_union =
     (case buf_union of
        Polygon poly \<Rightarrow> boundary_lines poly
      | MultiPolygon parts \<Rightarrow> buf_lines_loop parts [])"

subsection \<open>Assembly of vertices, segments and regions (source lines 119 to 162)\<close>

text \<open>
  A two-dimensional array is the list of its rows. \<open>np.vstack\<close> refuses rows of
  different widths. \<open>edge_pairs n\<close> is
  \<open>np.vstack((np.arange(0, n), np.arange(1, n + 1))).T\<close>.
  \<open>boundary_data\<close> is the block for the bounding polygon: all coordinates of the
  exterior ring but the last, as they are, and the segments closed by \<open>b[-1][1] = 0\<close>,
  which raises for an array without rows (as reading the first ring of a boundary without
  rings would).
  \<open>add_line\<close> is one round of the loops over the lines and over the buffer boundaries:
  the slice \<open>a[:, 0:2]\<close> raises for a line without coordinates.
  \<open>set_regions\<close> is \<open>np.array(rep_points)[0]\<close>.
\<close>

definition np_array :: "coord list \<Rightarrow> real list list" where
  "np_array coords = map row coords"

fun width :: "real list list \<Rightarrow> nat" where
  "width [] = 0"
| "width (r # rows) = length r"

definition vstack :: "real list list \<Rightarrow> real list list \<Rightarrow> error + real list list" where
  "vstack a b = (if width a = width b then Inr (a @ b) else Inl ValueError)"

definition edge_pairs :: "nat \<Rightarrow> (nat \<times> nat) list" where
  "edge_pairs n = map (\<lambda>i. (i, i + 1)) [0..<n]"

definition boundary_data :: "polygon \<Rightarrow> error + tri_data" where
  "boundary_data bounding_poly =
     (let ring = (case boundary bounding_poly of
                    LineString ring \<Rightarrow> ring
                  | MultiLineString rings \<Rightarrow>
                      (case rings of [] \<Rightarrow> [] | ring # others \<Rightarrow> ring));
          a = np_array (butlast ring);
          b = edge_pairs (length a)
      in if b = [] then Inl IndexError
         else Inr \<lparr>vertices = a, segments = butlast b @ [(fst (last b), 0)], regions = None\<rparr>)"

definition add_line :: "bool \<Rightarrow> tri_data \<Rightarrow> linestring \<Rightarrow> error + tri_data" where
  "add_line with_segments data line =
     (let a = np_array line in
      if a = [] then Inl IndexError
      else
        let a = map (take 2) a;
            b = butlast (edge_pairs (length a));
            b = map (\<lambda>(i, j). (i + length (vertices data), j + length (vertices data))) b;
            segs = (if with_segments then segments data @ b else segments data)
        in case vstack (vertices data) a of
             Inl e \<Rightarrow> Inl e
           | Inr verts \<Rightarrow> Inr (data\<lparr>vertices := verts, segments := segs\<rparr>))"

fun add_lines :: "bool \<Rightarrow> tri_data \<Rightarrow> linestring list \<Rightarrow> error + tri_data" where
  "add_lines with_segments data [] = Inr data"
| "add_lines with_segments data (line # lines) =
     (case add_line with_segments data line of
        Inl e \<Rightarrow> Inl e
      | Inr data' \<Rightarrow> add_lines with_segments data' lines)"

definition set_regions :: "tri_data \<Rightarrow> real list list \<Rightarrow> error + tri_data" where
  "set_regions data rep_points =
     (case rep_points of
        [] \<Rightarrow> Inl IndexError
      | first # others \<Rightarrow> Inr (data\<lparr>regions := Some first\<rparr>))"

definition assemble ::
  "polygon \<Rightarrow> linestring list \<Rightarrow> linestring list \<Rightarrow> real list list \<Rightarrow> real
     \<Rightarrow> error + tri_data" where
  "assemble bounding_poly lines buf_lines rep_points buffer_dist =
     (case boundary_data bounding_poly of
        Inl e \<Rightarrow> Inl e
      | Inr data0 \<Rightarrow>
          (case add_lines (buffer_dist = 0) data0 lines of
             Inl e \<Rightarrow> Inl e
           | Inr data1 \<Rightarrow>
               if buffer_dist > 0 then
                 (case add_lines True data1 buf_lines of
                    Inl e \<Rightarrow> Inl e
                  | Inr data2 \<Rightarrow> set_regions data2 rep_points)
               else Inr data1))"

text \<open>
  \<open>triMeshgen_tri_data\<close> is \<open>triMeshgen\<close> up to the call of the triangulation, and
  \<open>triMeshgen\<close> hands the result to it; the triangulation itself is a parameter.
  The argument \<open>points\<close> is never read and the printed progress lines are left out.
\<close>

definition triMeshgen_tri_data ::
  "geometry_library \<Rightarrow> polygon \<Rightarrow> shape list \<Rightarrow> areal list \<Rightarrow> real \<Rightarrow> real
     \<Rightarrow> error + tri_data" where
  "triMeshgen_tri_data lib bounding_poly lines polygons target_length buffer_dist =
     (case graded_lines lines polygons target_length of
        Inl e \<Rightarrow> Inl e
      | Inr lines \<Rightarrow>
          let a_inner = target_length\<^sup>2;
              area_in_buffer = 5 * a_inner
          in if buffer_dist > 0 then
               (let buf_union = buf_union_of lib lines target_length buffer_dist in
                case rep_points_of lib buf_union area_in_buffer of
                  Inl e \<Rightarrow> Inl e
                | Inr rep_points \<Rightarrow>
                    assemble bounding_poly lines (buf_lines_of buf_union) rep_points buffer_dist)
             else assemble bounding_poly lines [] [] buffer_dist)"

definition triMeshgen ::
  "(tri_data \<Rightarrow> real \<Rightarrow> error + 'mesh) \<Rightarrow> geometry_library \<Rightarrow> polygon \<Rightarrow> shape list
     \<Rightarrow> areal list \<Rightarrow> real \<Rightarrow> real \<Rightarrow> real \<Rightarrow> error + 'mesh" where
  "triMeshgen triangulate lib bounding_poly lines polygons target_length element_area buffer_dist =
     (case triMeshgen_tri_data lib bounding_poly lines polygons target_length buffer_dist of
        Inl e \<Rightarrow> Inl e
      | Inr data \<Rightarrow> triangulate data element_area)"

section \<open>Notions used to state the properties\<close>

text \<open>
  \<open>prefix_to p rest d\<close> is the part of the line \<open>p # rest\<close> from its start to the
  point that the walk reaches at distance \<open>d\<close>: its length is the arc length at which
  that point lies. \<open>gaps\<close> are the differences of consecutive distances, \<open>seg_lens\<close>
  the planar lengths of the consecutive segments of a coordinate sequence, and
  \<open>sample_count\<close> is \<open>floor (L / s)\<close>.
\<close>

fun prefix_to :: "coord \<Rightarrow> coord list \<Rightarrow> real \<Rightarrow> coord list" where
  "prefix_to p [] d = [p]"
| "prefix_to p (q # rest) d =
     (if d \<le> 0 then [p]
      else if d < seg_len p q then [p, along p q (d / seg_len p q)]
      else p # prefix_to q rest (d - seg_len p q))"

fun adjacent :: "('a \<Rightarrow> 'a \<Rightarrow> 'b) \<Rightarrow> 'a list \<Rightarrow> 'b list" where
  "adjacent f (x # y # xs) = f x y # adjacent f (y # xs)"
| "adjacent f xs = []"

definition gaps :: "real list \<Rightarrow> real list" where
  "gaps ds = adjacent (\<lambda>a b. b - a) ds"

definition seg_lens :: "coord list \<Rightarrow> real list" where
  "seg_lens pts = adjacent seg_len pts"

definition sample_count :: "linestring \<Rightarrow> real \<Rightarrow> nat" where
  "sample_count line s = nat \<lfloor>line_length line / s\<rfloor>"

text \<open>
  \<open>flatten_lines\<close> is the flat list of the simple lines of the input. \<open>ring_loop m\<close>
  is the closed loop of segments over the vertices \<open>0, ..., m - 1\<close>; \<open>chain off k\<close>
  is the open chain over the \<open>k\<close> vertices that start at index \<open>off\<close>, and
  \<open>chains\<close> lays such chains one after the other. \<open>xy_rows\<close> are the rows of a line
  without their z-coordinates.
\<close>

definition flatten_lines :: "shape list \<Rightarrow> linestring list" where
  "flatten_lines lines =
     concat (map (\<lambda>g. case g of LineString line \<Rightarrow> [line] | MultiLineString parts \<Rightarrow> parts) lines)"

definition ring_loop :: "nat \<Rightarrow> (nat \<times> nat) list" where
  "ring_loop m = map (\<lambda>i. (i, if Suc i = m then 0 else Suc i)) [0..<m]"

definition chain :: "nat \<Rightarrow> nat \<Rightarrow> (nat \<times> nat) list" where
  "chain off k = map (\<lambda>i. (off + i, off + i + 1)) [0..<k - 1]"

fun chains :: "nat \<Rightarrow> nat list \<Rightarrow> (nat \<times> nat) list" where
  "chains off [] = []"
| "chains off (k # ks) = chain off k @ chains (off + k) ks"

definition xy_rows :: "linestring \<Rightarrow> real list list" where
  "xy_rows line = map (\<lambda>c. [cx c, cy c]) line"

section \<open>A worked run\<close>

text \<open>
  Concrete values on which the theorems are tried. \<open>box_library\<close> stands for the
  geometry library on lines that run from their lower left to their upper right end and
  whose buffers do not meet: the buffer of a line is the box around it, the union of the
  buffers is their collection, there is nothing to simplify, and the representative point
  of a box is its centre. \<open>inside_box\<close> says that a point lies strictly inside such a
  box. The run has the rectangle of the source's own example as bounding polygon, two
  lines of length 10, \<open>target_length = 5\<close> and \<open>buffer_dist = 25\<close> or \<open>0\<close>;
  \<open>demo_data_buffered\<close> and \<open>demo_data_plain\<close> are the data it assembles.
\<close>

definition box :: "real \<Rightarrow> real \<Rightarrow> real \<Rightarrow> real \<Rightarrow> polygon" where
  "box x0 y0 x1 y1 =
     \<lparr>exterior = [Coord x0 y0 None, Coord x1 y0 None, Coord x1 y1 None, Coord x0 y1 None,
                  Coord x0 y0 None],
      interiors = []\<rparr>"

definition inside_box :: "real \<Rightarrow> real \<Rightarrow> real \<Rightarrow> real \<Rightarrow> coord \<Rightarrow> bool" where
  "inside_box x0 y0 x1 y1 c = (x0 < cx c \<and> cx c < x1 \<and> y0 < cy c \<and> cy c < y1)"

fun box_buffer :: "linestring \<Rightarrow> real \<Rightarrow> areal" where
  "box_buffer [] d = MultiPolygon []"
| "box_buffer (p # rest) d =
     Polygon (box (cx p - d) (cy p - d) (cx (last (p # rest)) + d) (cy (last (p # rest)) + d))"

fun parts_of :: "areal \<Rightarrow> polygon list" where
  "parts_of (Polygon poly) = [poly]"
| "parts_of (MultiPolygon parts) = parts"

definition collect :: "areal list \<Rightarrow> areal" where
  "collect geoms =
     (case concat (map parts_of geoms) of
        [poly] \<Rightarrow> Polygon poly
      | parts \<Rightarrow> MultiPolygon parts)"

definition box_centre :: "polygon \<Rightarrow> coord" where
  "box_centre poly =
     (case exterior poly of
        a # b # c # others \<Rightarrow> Coord ((cx a + cx c) / 2) ((cy a + cy c) / 2) None
      | _ \<Rightarrow> Coord 0 0 None)"

definition box_library :: geometry_library where
  "box_library =
     \<lparr>buffer = box_buffer, cascaded_union = collect, simplify = (\<lambda>geom tolerance. geom),
      representative_point = box_centre\<rparr>"

definition demo_poly :: polygon where
  "demo_poly = box 0 0 1000 800"

definition demo_lines :: "shape list" where
  "demo_lines =
     [LineString [Coord 200 200 None, Coord 210 200 None],
      LineString [Coord 200 600 None, Coord 210 600 None]]"

definition demo_graded :: "linestring list" where
  "demo_graded =
     [[Coord 200 200 None, Coord 205 200 None, Coord 210 200 None],
      [Coord 200 600 None, Coord 205 600 None, Coord 210 600 None]]"

definition demo_data_buffered :: tri_data where
  "demo_data_buffered =
     \<lparr>vertices =
        [[0, 0], [1000, 0], [1000, 800], [0, 800],
         [200, 200], [205, 200], [210, 200],
         [200, 600], [205, 600], [210, 600],
         [175, 175], [235, 175], [235, 225], [175, 225], [175, 175],
         [175, 575], [235, 575], [235, 625], [175, 625], [175, 575]],
      segments =
        [(0, 1), (1, 2), (2, 3), (3, 0),
         (10, 11), (11, 12), (12, 13), (13, 14),
         (15, 16), (16, 17), (17, 18), (18, 19)],
      regions = Some [205, 600, 0, 125]\<rparr>"

definition demo_data_plain :: tri_data where
  "demo_data_plain =
     \<lparr>vertices =
        [[0, 0], [1000, 0], [1000, 800], [0, 800],
         [200, 200], [205, 200], [210, 200],
         [200, 600], [205, 600], [210, 600]],
      segments =
        [(0, 1), (1, 2), (2, 3), (3, 0),
         (4, 5), (5, 6),
         (7, 8), (8, 9)],
      regions = None\<rparr>"

section \<open>Properties of grader\<close>

subsection \<open>Lengths, interpolation and sample counts\<close>

lemma seg_len_nonneg [simp]: "0 \<le> seg_len p q"
  by (simp add: seg_len_def)

lemma seg_len_same_y: "cy p = cy q \<Longrightarrow> seg_len p q = \<bar>cx q - cx p\<bar>"
  by (simp add: seg_len_def)

lemma line_length_nonneg: "0 \<le> line_length xs"
  by (induction xs rule: line_length.induct) simp_all

lemma walk_zero [simp]: "walk p rest 0 = p"
  by (cases rest) simp_all

lemma interpolate_zero [simp]: "interpolate p rest 0 = p"
  by (simp add: interpolate_def)

lemma cx_along [simp]: "cx (along p q t) = cx p + t * (cx q - cx p)"
  and cy_along [simp]: "cy (along p q t) = cy p + t * (cy q - cy p)"
  by (simp_all add: along_def)

lemma seg_len_scaled: "sqrt ((c * a)\<^sup>2 + (c * b)\<^sup>2) = \<bar>c\<bar> * sqrt (a\<^sup>2 + b\<^sup>2)"
proof -
  have "(c * a)\<^sup>2 + (c * b)\<^sup>2 = c\<^sup>2 * (a\<^sup>2 + b\<^sup>2)"
    by (simp add: power_mult_distrib distrib_left)
  then show ?thesis
    by (simp add: real_sqrt_mult)
qed

lemma seg_len_along_along:
  "seg_len (along p q a) (along p q b) = \<bar>b - a\<bar> * seg_len p q"
proof -
  have x: "cx (along p q b) - cx (along p q a) = (b - a) * (cx q - cx p)"
    by (simp add: algebra_simps)
  have y: "cy (along p q b) - cy (along p q a) = (b - a) * (cy q - cy p)"
    by (simp add: algebra_simps)
  show ?thesis
    unfolding seg_len_def x y by (rule seg_len_scaled)
qed

lemma seg_len_along_start: "seg_len p (along p q t) = \<bar>t\<bar> * seg_len p q"
proof -
  have x: "cx (along p q t) - cx p = t * (cx q - cx p)" by simp
  have y: "cy (along p q t) - cy p = t * (cy q - cy p)" by simp
  show ?thesis unfolding seg_len_def x y by (rule seg_len_scaled)
qed

lemma prefix_to_Cons: "\<exists>ys. prefix_to p rest d = p # ys"
  by (cases rest) auto

lemma prefix_to_not_Nil [simp]: "prefix_to p rest d \<noteq> []"
  using prefix_to_Cons [of p rest d] by auto

lemma last_prefix_to: "last (prefix_to p rest d) = walk p rest d"
  by (induction p rest d rule: walk.induct) auto

lemma line_length_prefix_to:
  "0 \<le> d \<Longrightarrow> d \<le> line_length (p # rest) \<Longrightarrow> line_length (prefix_to p rest d) = d"
proof (induction p rest d rule: walk.induct)
  case (1 p d)
  then show ?case by simp
next
  case (2 p q rest d)
  show ?case
  proof (cases "d \<le> 0")
    case True
    with 2 show ?thesis by simp
  next
    case pos: False
    show ?thesis
    proof (cases "d < seg_len p q")
      case True
      with pos show ?thesis by (simp add: seg_len_along_start)
    next
      case False
      obtain ys where ys: "prefix_to q rest (d - seg_len p q) = q # ys"
        using prefix_to_Cons by blast
      have "line_length (prefix_to q rest (d - seg_len p q)) = d - seg_len p q"
        using 2 pos False by simp
      with pos False ys show ?thesis by simp
    qed
  qed
qed

lemma adjacent_snoc:
  "xs \<noteq> [] \<Longrightarrow> adjacent f (xs @ [e]) = adjacent f xs @ [f (last xs) e]"
  by (induction f xs rule: adjacent.induct) auto

lemma adjacent_map_upt:
  "adjacent f (map g [0..<Suc n] @ [e])
     = map (\<lambda>i. f (g i) (g (Suc i))) [0..<n] @ [f (g n) e]"
proof (induction n arbitrary: e)
  case 0
  show ?case by simp
next
  case (Suc n)
  have "adjacent f (map g [0..<Suc (Suc n)] @ [e])
      = adjacent f ((map g [0..<Suc n] @ [g (Suc n)]) @ [e])" by simp
  also have "\<dots> = adjacent f (map g [0..<Suc n] @ [g (Suc n)]) @ [f (g (Suc n)) e]"
    by (subst adjacent_snoc) simp_all
  also have "\<dots> = (map (\<lambda>i. f (g i) (g (Suc i))) [0..<n] @ [f (g n) (g (Suc n))]) @ [f (g (Suc n)) e]"
    by (simp only: Suc.IH)
  finally show ?case by simp
qed

lemma grader_dists_pos:
  "0 < s \<Longrightarrow> grader_dists line s = map (\<lambda>i. real i * s) [0..<nat \<lfloor>line_length line / s\<rfloor>]"
  by (simp add: grader_dists_def py_range_def py_int_def line_length_nonneg)

lemma samples_count:
  assumes "0 < s" "s \<le> L"
  shows "1 \<le> nat \<lfloor>L / s\<rfloor>"
    and "real (nat \<lfloor>L / s\<rfloor>) * s \<le> L"
    and "L < (real (nat \<lfloor>L / s\<rfloor>) + 1) * s"
proof -
  have q1: "1 \<le> L / s" using assms by simp
  then have f1: "1 \<le> \<lfloor>L / s\<rfloor>" by simp
  have "nat 1 \<le> nat \<lfloor>L / s\<rfloor>" using f1 by (rule nat_mono)
  then show "1 \<le> nat \<lfloor>L / s\<rfloor>" by simp
  have r: "real (nat \<lfloor>L / s\<rfloor>) = of_int \<lfloor>L / s\<rfloor>" using f1 by simp
  have a: "of_int \<lfloor>L / s\<rfloor> \<le> L / s" by (rule of_int_floor_le)
  have "of_int \<lfloor>L / s\<rfloor> * s \<le> L"
    by (rule iffD1 [OF pos_le_divide_eq [OF assms(1)] a])
  then show "real (nat \<lfloor>L / s\<rfloor>) * s \<le> L"
    by (simp only: r)
  have b: "L / s < of_int \<lfloor>L / s\<rfloor> + 1" by linarith
  have "L < (of_int \<lfloor>L / s\<rfloor> + 1) * s"
    by (rule iffD1 [OF pos_divide_less_eq [OF assms(1)] b])
  then show "L < (real (nat \<lfloor>L / s\<rfloor>) + 1) * s"
    by (simp only: r)
qed

lemma grader_line_pos:
  assumes "0 < s" "s \<le> line_length (p # rest)"
  shows "grader (LineString (p # rest)) ''line'' s =
     ([], Inr (Some (map (\<lambda>i. interpolate p rest (real i * s))
                       [0..<nat \<lfloor>line_length (p # rest) / s\<rfloor>] @ [last (p # rest)])))"
proof -
  have n: "1 \<le> nat \<lfloor>line_length (p # rest) / s\<rfloor>"
    using assms by (rule samples_count(1))
  have c: "grader_coords p rest s = map (\<lambda>i. interpolate p rest (real i * s))
                       [0..<nat \<lfloor>line_length (p # rest) / s\<rfloor>] @ [last (p # rest)]"
    unfolding grader_coords_def grader_dists_pos [OF assms(1)] by (simp add: comp_def)
  have "2 \<le> length (grader_coords p rest s)"
    unfolding c using n by simp
  then have "LineString_new (grader_coords p rest s) = Inr (grader_coords p rest s)"
    by (simp add: LineString_new_def)
  then show ?thesis
    using assms(1) c by simp
qed

lemma walk_straight:
  assumes "0 \<le> d" "d \<le> seg_len p q" "0 < seg_len p q"
  shows "cx (walk p [q] d) = cx (along p q (d / seg_len p q))"
    and "cy (walk p [q] d) = cy (along p q (d / seg_len p q))"
  using assms by (auto simp: not_le not_less)

lemma seg_len_cong:
  "cx a = cx a' \<Longrightarrow> cy a = cy a' \<Longrightarrow> cx b = cx b' \<Longrightarrow> cy b = cy b'
     \<Longrightarrow> seg_len a b = seg_len a' b'"
  by (simp add: seg_len_def)

lemma seg_len_walk_walk:
  assumes "0 \<le> a" "a \<le> b" "b \<le> seg_len p q" "0 < seg_len p q"
  shows "seg_len (walk p [q] a) (walk p [q] b) = b - a"
proof -
  let ?L = "seg_len p q"
  have "seg_len (walk p [q] a) (walk p [q] b)
      = seg_len (along p q (a / ?L)) (along p q (b / ?L))"
    using assms by (intro seg_len_cong walk_straight) simp_all
  also have "\<dots> = \<bar>b / ?L - a / ?L\<bar> * ?L"
    by (rule seg_len_along_along)
  also have "\<dots> = b - a"
    using assms by (simp add: diff_divide_distrib [symmetric])
  finally show ?thesis .
qed

lemma seg_len_walk_end:
  assumes "0 \<le> a" "a \<le> seg_len p q" "0 < seg_len p q"
  shows "seg_len (walk p [q] a) q = seg_len p q - a"
proof -
  have "seg_len (walk p [q] a) (walk p [q] (seg_len p q)) = seg_len p q - a"
    using assms by (intro seg_len_walk_walk) simp_all
  moreover have "walk p [q] (seg_len p q) = q"
    using assms by simp
  ultimately show ?thesis by simp
qed

lemma grader_dists_count:
  "0 < s \<Longrightarrow> grader_dists line s = map (\<lambda>i. real i * s) [0..<sample_count line s]"
  by (simp add: grader_dists_pos sample_count_def)

lemma grader_line_ok:
  assumes "0 < s" "s \<le> line_length (p # rest)"
  shows "grader (LineString (p # rest)) ''line'' s = ([], Inr (Some (grader_coords p rest s)))"
proof -
  have "grader (LineString (p # rest)) ''line'' s =
     ([], Inr (Some (map (\<lambda>i. interpolate p rest (real i * s))
                       [0..<nat \<lfloor>line_length (p # rest) / s\<rfloor>] @ [last (p # rest)])))"
    using assms by (rule grader_line_pos)
  also have "map (\<lambda>i. interpolate p rest (real i * s))
                       [0..<nat \<lfloor>line_length (p # rest) / s\<rfloor>] @ [last (p # rest)]
     = grader_coords p rest s"
    unfolding grader_coords_def grader_dists_pos [OF assms(1)] by (simp add: comp_def)
  finally show ?thesis .
qed

lemma sample_count_ge1:
  "0 < s \<Longrightarrow> s \<le> line_length line \<Longrightarrow> 1 \<le> sample_count line s"
  unfolding sample_count_def by (rule samples_count(1))

lemma final_gap_bounds:
  assumes "0 < s" "s \<le> line_length line"
  shows "s \<le> line_length line - real (sample_count line s - 1) * s"
    and "line_length line - real (sample_count line s - 1) * s < 2 * s"
proof -
  let ?n = "sample_count line s"
  have n: "1 \<le> ?n" using assms by (rule sample_count_ge1)
  then have r: "real (?n - 1) = real ?n - 1" by (simp add: of_nat_diff)
  have lo: "real ?n * s \<le> line_length line"
    unfolding sample_count_def using assms by (rule samples_count(2))
  have hi: "line_length line < (real ?n + 1) * s"
    unfolding sample_count_def using assms by (rule samples_count(3))
  show "s \<le> line_length line - real (?n - 1) * s"
    using lo unfolding r by (simp add: algebra_simps)
  show "line_length line - real (?n - 1) * s < 2 * s"
    using hi unfolding r by (simp add: algebra_simps)
qed

lemma hd_grader_coords:
  assumes "0 < s" "s \<le> line_length (p # rest)"
  shows "hd (grader_coords p rest s) = p"
proof -
  obtain m where m: "sample_count (p # rest) s = Suc m"
    using sample_count_ge1 [OF assms] by (cases "sample_count (p # rest) s") simp_all
  show ?thesis
    unfolding grader_coords_def grader_dists_count [OF assms(1)] m
    by (simp add: upt_conv_Cons del: upt_Suc)
qed

lemma last_grader_coords: "last (grader_coords p rest s) = last (p # rest)"
  by (simp add: grader_coords_def)

lemma dists_in_range:
  assumes "0 < s" "s \<le> line_length line" "d \<in> set (grader_dists line s)"
  shows "0 \<le> d" and "d \<le> line_length line - s"
proof -
  let ?n = "sample_count line s"
  obtain i where i: "i < ?n" "d = real i * s"
    using assms(3) unfolding grader_dists_count [OF assms(1)] by auto
  show "0 \<le> d" using i assms(1) by simp
  have "real i \<le> real (?n - 1)" using i(1) by simp
  then have "real i * s \<le> real (?n - 1) * s"
    using assms(1) by (simp add: mult_right_mono)
  with final_gap_bounds(1) [OF assms(1,2)] show "d \<le> line_length line - s"
    unfolding i(2) by simp
qed

lemma dists_arc_position:
  assumes "0 < s" "s \<le> line_length (p # rest)" "d \<in> set (grader_dists (p # rest) s)"
  shows "line_length (prefix_to p rest d) = d \<and> last (prefix_to p rest d) = interpolate p rest d"
proof -
  have d0: "0 \<le> d" using assms by (rule dists_in_range(1))
  have dL: "d \<le> line_length (p # rest) - s" using assms by (rule dists_in_range(2))
  then have "d \<le> line_length (p # rest)" using assms(1) by simp
  with d0 have "line_length (prefix_to p rest d) = d" by (rule line_length_prefix_to)
  moreover have "last (prefix_to p rest d) = interpolate p rest d"
    using d0 by (simp add: last_prefix_to interpolate_def)
  ultimately show ?thesis by simp
qed

lemma gaps_dists:
  assumes "0 < s" "s \<le> line_length line"
  shows "gaps (grader_dists line s @ [line_length line])
     = replicate (sample_count line s - 1) s
         @ [line_length line - real (sample_count line s - 1) * s]"
proof -
  obtain m where m: "sample_count line s = Suc m"
    using sample_count_ge1 [OF assms] by (cases "sample_count line s") simp_all
  have "map (\<lambda>i. real (Suc i) * s - real i * s) [0..<m] = replicate m s"
    by (simp add: map_replicate_const algebra_simps)
  then show ?thesis
    unfolding gaps_def grader_dists_count [OF assms(1)] m adjacent_map_upt by simp
qed

lemma interpolate_nonneg: "0 \<le> d \<Longrightarrow> interpolate p rest d = walk p rest d"
  by (simp add: interpolate_def)

lemma sample_dist_nonneg: "0 < s \<Longrightarrow> 0 \<le> real i * s"
  by simp

lemma seg_lens_straight:
  assumes "0 < s" "s \<le> line_length [p, q]"
  shows "seg_lens (grader_coords p [q] s)
     = replicate (sample_count [p, q] s - 1) s
         @ [line_length [p, q] - real (sample_count [p, q] s - 1) * s]"
proof -
  let ?L = "seg_len p q"
  have L: "line_length [p, q] = ?L" by simp
  have Lpos: "0 < ?L" using assms by simp
  obtain m where m: "sample_count [p, q] s = Suc m"
    using sample_count_ge1 [OF assms] by (cases "sample_count [p, q] s") simp_all
  have top: "real (Suc m) * s \<le> ?L"
    using samples_count(2) [OF assms] m by (simp add: sample_count_def)
  have inner: "seg_len (interpolate p [q] (real i * s)) (interpolate p [q] (real (Suc i) * s)) = s"
    if "i < m" for i
  proof -
    have "real (Suc i) * s \<le> real (Suc m) * s"
      using that assms(1) by (intro mult_right_mono) simp_all
    with top have b: "real (Suc i) * s \<le> ?L" by simp
    have "seg_len (walk p [q] (real i * s)) (walk p [q] (real (Suc i) * s))
        = real (Suc i) * s - real i * s"
      using assms(1) b Lpos by (intro seg_len_walk_walk) (simp_all add: algebra_simps)
    also have "\<dots> = s" by (simp add: algebra_simps)
    finally show ?thesis
      unfolding interpolate_nonneg [OF sample_dist_nonneg [OF assms(1)]] .
  qed
  have final: "seg_len (interpolate p [q] (real m * s)) q = ?L - real m * s"
  proof -
    have "real m * s \<le> ?L" using top assms(1) by (simp add: algebra_simps)
    then have "seg_len (walk p [q] (real m * s)) q = ?L - real m * s"
      using assms(1) Lpos by (intro seg_len_walk_end) simp_all
    then show ?thesis
      unfolding interpolate_nonneg [OF sample_dist_nonneg [OF assms(1)]] .
  qed
  have "map (\<lambda>i. seg_len (interpolate p [q] (real i * s)) (interpolate p [q] (real (Suc i) * s)))
          [0..<m] = replicate m s"
  proof -
    have "map (\<lambda>i. seg_len (interpolate p [q] (real i * s)) (interpolate p [q] (real (Suc i) * s)))
          [0..<m] = map (\<lambda>i. s) [0..<m]"
      by (rule map_cong [OF refl]) (simp add: inner del: of_nat_Suc)
    then show ?thesis by (simp add: map_replicate_const)
  qed
  then show ?thesis
    unfolding seg_lens_def grader_coords_def grader_dists_count [OF assms(1)] m
    using final
    by (simp add: adjacent_map_upt comp_def del: upt_Suc of_nat_Suc)
qed

lemma grader_dists_short:
  assumes "0 < s" "line_length line < s"
  shows "grader_dists line s = []"
proof -
  have "0 \<le> line_length line / s" using assms(1) line_length_nonneg [of line] by simp
  moreover have "line_length line / s < 1" using assms by simp
  ultimately have "\<lfloor>line_length line / s\<rfloor> = 0" by linarith
  then show ?thesis
    using assms(1) by (simp add: grader_dists_pos)
qed

lemma sample_count_one:
  assumes "0 < s" "s \<le> line_length line" "line_length line < 2 * s"
  shows "sample_count line s = 1"
proof -
  have "1 \<le> line_length line / s" using assms by simp
  moreover have "line_length line / s < 2" using assms by (simp add: pos_divide_less_eq)
  ultimately have "\<lfloor>line_length line / s\<rfloor> = 1" by linarith
  then show ?thesis by (simp add: sample_count_def)
qed

subsection \<open>A type designation other than \<open>'line'\<close>\<close>

text \<open>
  Claim C9. Whenever the type argument of \<open>grader\<close> is not \<open>'line'\<close>, whatever the
  shape and the spacing, the function prints its message that the input is not a line
  and returns \<open>None\<close>: no graded line is produced.
\<close>

theorem grader_non_line:
  "type \<noteq> ''line'' \<Longrightarrow> grader shapein type s = ([not_a_line_msg], Inr None)"
  by simp

theorem grader_non_line_witness:
  "''polygon'' \<noteq> ''line'' \<and>
   grader (LineString [Coord 0 0 None, Coord 12 0 None]) ''polygon'' 5 = ([not_a_line_msg], Inr None)"
proof -
  have h: "''polygon'' \<noteq> ''line''" by simp
  show ?thesis by (intro conjI h grader_non_line [OF h])
qed

subsection \<open>Spacing of the graded points\<close>

text \<open>
  Claim C1, as amended. For a simple line of length \<open>L\<close> and a spacing \<open>s\<close> with
  \<open>0 < s \<le> L\<close>, \<open>grader\<close> returns the line sampled at the arc lengths
  \<open>0, s, ..., (n - 1) s\<close> with \<open>n = floor (L / s) \<ge> 1\<close>, followed by the terminal
  coordinate of the line. Each sample lies at its arc length on the line, the first point
  is the first coordinate of the line and the last point its last coordinate. Consecutive
  samples are \<open>s\<close> apart along the line, and the final stretch from the last sample to
  the end has arc length \<open>L - (n - 1) s\<close>, which is at least \<open>s\<close> and less than
  \<open>2 s\<close>. On a straight line of two coordinates these are also the planar lengths of the
  segments of the result.
\<close>

theorem grader_spacing:
  assumes "0 < s" and "s \<le> line_length (p # rest)"
  shows "grader (LineString (p # rest)) ''line'' s = ([], Inr (Some (grader_coords p rest s)))
    \<and> grader_coords p rest s
        = map (interpolate p rest) (grader_dists (p # rest) s) @ [last (p # rest)]
    \<and> grader_dists (p # rest) s = map (\<lambda>i. real i * s) [0..<sample_count (p # rest) s]
    \<and> 1 \<le> sample_count (p # rest) s
    \<and> (\<forall>d \<in> set (grader_dists (p # rest) s).
          line_length (prefix_to p rest d) = d \<and> last (prefix_to p rest d) = interpolate p rest d)
    \<and> hd (grader_coords p rest s) = p
    \<and> last (grader_coords p rest s) = last (p # rest)
    \<and> gaps (grader_dists (p # rest) s @ [line_length (p # rest)])
        = replicate (sample_count (p # rest) s - 1) s
            @ [line_length (p # rest) - real (sample_count (p # rest) s - 1) * s]
    \<and> s \<le> line_length (p # rest) - real (sample_count (p # rest) s - 1) * s
    \<and> line_length (p # rest) - real (sample_count (p # rest) s - 1) * s < 2 * s
    \<and> (\<forall>q. rest = [q] \<longrightarrow>
          seg_lens (grader_coords p rest s)
            = replicate (sample_count (p # rest) s - 1) s
                @ [line_length (p # rest) - real (sample_count (p # rest) s - 1) * s])"
proof (intro conjI ballI allI impI)
  show "grader (LineString (p # rest)) ''line'' s = ([], Inr (Some (grader_coords p rest s)))"
    using assms by (rule grader_line_ok)
  show "grader_coords p rest s
        = map (interpolate p rest) (grader_dists (p # rest) s) @ [last (p # rest)]"
    by (rule grader_coords_def)
  show "grader_dists (p # rest) s = map (\<lambda>i. real i * s) [0..<sample_count (p # rest) s]"
    using assms(1) by (rule grader_dists_count)
  show "1 \<le> sample_count (p # rest) s"
    using assms by (rule sample_count_ge1)
  show "line_length (prefix_to p rest d) = d" if "d \<in> set (grader_dists (p # rest) s)" for d
    using dists_arc_position [OF assms that] by simp
  show "last (prefix_to p rest d) = interpolate p rest d"
    if "d \<in> set (grader_dists (p # rest) s)" for d
    using dists_arc_position [OF assms that] by simp
  show "hd (grader_coords p rest s) = p"
    using assms by (rule hd_grader_coords)
  show "last (grader_coords p rest s) = last (p # rest)"
    by (rule last_grader_coords)
  show "gaps (grader_dists (p # rest) s @ [line_length (p # rest)])
        = replicate (sample_count (p # rest) s - 1) s
            @ [line_length (p # rest) - real (sample_count (p # rest) s - 1) * s]"
    using assms by (rule gaps_dists)
  show "s \<le> line_length (p # rest) - real (sample_count (p # rest) s - 1) * s"
    using assms by (rule final_gap_bounds(1))
  show "line_length (p # rest) - real (sample_count (p # rest) s - 1) * s < 2 * s"
    using assms by (rule final_gap_bounds(2))
  show "seg_lens (grader_coords p rest s)
            = replicate (sample_count (p # rest) s - 1) s
                @ [line_length (p # rest) - real (sample_count (p # rest) s - 1) * s]"
    if "rest = [q]" for q
    using seg_lens_straight [of s p q] assms unfolding that by simp
qed

theorem grader_spacing_witness:
  "(0::real) < 5 \<and> 5 \<le> line_length (Coord 0 0 None # [Coord 12 0 None])
   \<and> grader (LineString (Coord 0 0 None # [Coord 12 0 None])) ''line'' 5
       = ([], Inr (Some (grader_coords (Coord 0 0 None) [Coord 12 0 None] 5)))"
proof -
  have h1: "(0::real) < 5" by simp
  have h2: "5 \<le> line_length (Coord 0 0 None # [Coord 12 0 None])"
    by (simp add: seg_len_same_y)
  show ?thesis
    by (intro conjI h1 h2 conjunct1 [OF grader_spacing [OF h1 h2]])
qed

text \<open>
  The claim as written bounds the final segment by \<open>s\<close>. The straight line of length 12
  graded at 5 has its points at 0, 5 and 12, as the claim itself lists them, and its final
  segment has length 7.
\<close>

theorem grader_final_segment_counterexample:
  "line_length [Coord 0 0 None, Coord 12 0 None] = 12
   \<and> grader (LineString [Coord 0 0 None, Coord 12 0 None]) ''line'' 5
       = ([], Inr (Some [Coord 0 0 None, Coord 5 0 None, Coord 12 0 None]))
   \<and> seg_lens [Coord 0 0 None, Coord 5 0 None, Coord 12 0 None] = [5, 7]
   \<and> \<not> (7 \<le> (5::real))"
  by (simp add: grader_coords_def grader_dists_def py_range_def py_int_def LineString_new_def
      seg_len_same_y interpolate_def along_def upt_conv_Cons seg_lens_def)

subsection \<open>Lines shorter than the spacing\<close>

text \<open>
  Claim C7, as amended. For a spacing \<open>s > 0\<close>: a line shorter than \<open>s\<close> gets no
  sample at all, the only coordinate built is its terminal one, and the construction of
  a line from that single coordinate fails, so no line is returned. The two original
  endpoints are returned for the lines with \<open>s \<le> L < 2 s\<close>.
\<close>

theorem grader_short_line:
  assumes "0 < s"
  shows "(line_length (p # rest) < s \<longrightarrow>
            grader_coords p rest s = [last (p # rest)]
            \<and> grader (LineString (p # rest)) ''line'' s = ([], Inl ValueError))
       \<and> (s \<le> line_length (p # rest) \<and> line_length (p # rest) < 2 * s \<longrightarrow>
            grader (LineString (p # rest)) ''line'' s = ([], Inr (Some [p, last (p # rest)])))"
proof (intro conjI impI)
  assume short: "line_length (p # rest) < s"
  show c: "grader_coords p rest s = [last (p # rest)]"
    unfolding grader_coords_def grader_dists_short [OF assms short] by simp
  show "grader (LineString (p # rest)) ''line'' s = ([], Inl ValueError)"
    using assms by (simp add: c LineString_new_def)
next
  assume mid: "s \<le> line_length (p # rest) \<and> line_length (p # rest) < 2 * s"
  then have lo: "s \<le> line_length (p # rest)" and hi: "line_length (p # rest) < 2 * s"
    by simp_all
  have "grader_coords p rest s = [p, last (p # rest)]"
    unfolding grader_coords_def grader_dists_count [OF assms]
      sample_count_one [OF assms lo hi] by simp
  with grader_line_ok [OF assms lo]
  show "grader (LineString (p # rest)) ''line'' s = ([], Inr (Some [p, last (p # rest)]))"
    by simp
qed

theorem grader_short_line_witness:
  "(0::real) < 5
   \<and> line_length (Coord 0 0 None # [Coord 3 0 None]) < 5
   \<and> grader (LineString (Coord 0 0 None # [Coord 3 0 None])) ''line'' 5 = ([], Inl ValueError)
   \<and> 5 \<le> line_length (Coord 0 0 None # [Coord 7 0 None])
   \<and> line_length (Coord 0 0 None # [Coord 7 0 None]) < 2 * 5
   \<and> grader (LineString (Coord 0 0 None # [Coord 7 0 None])) ''line'' 5
        = ([], Inr (Some [Coord 0 0 None, last (Coord 0 0 None # [Coord 7 0 None])]))"
proof -
  have h: "(0::real) < 5" by simp
  have a: "line_length (Coord 0 0 None # [Coord 3 0 None]) < 5"
    by (simp add: seg_len_same_y)
  have b: "5 \<le> line_length (Coord 0 0 None # [Coord 7 0 None])
           \<and> line_length (Coord 0 0 None # [Coord 7 0 None]) < 2 * 5"
    by (simp add: seg_len_same_y)
  have r1: "grader (LineString (Coord 0 0 None # [Coord 3 0 None])) ''line'' 5 = ([], Inl ValueError)"
    using conjunct1 [OF grader_short_line [OF h, of "Coord 0 0 None" "[Coord 3 0 None]"]] a
    by blast
  have r2: "grader (LineString (Coord 0 0 None # [Coord 7 0 None])) ''line'' 5
        = ([], Inr (Some [Coord 0 0 None, last (Coord 0 0 None # [Coord 7 0 None])]))"
    by (rule mp [OF conjunct2 [OF grader_short_line [OF h]] b])
  from h a b r1 r2 show ?thesis by blast
qed

text \<open>
  The claim as written promises the two endpoints for a line of length 3 graded at 5.
\<close>

theorem grader_short_line_counterexample:
  "line_length [Coord 0 0 None, Coord 3 0 None] = 3 \<and> (3::real) < 5
   \<and> grader (LineString [Coord 0 0 None, Coord 3 0 None]) ''line'' 5 = ([], Inl ValueError)
   \<and> grader_coords (Coord 0 0 None) [Coord 3 0 None] 5 = [Coord 3 0 None]"
  by (simp add: grader_coords_def grader_dists_def py_range_def py_int_def LineString_new_def
      seg_len_same_y)


subsection \<open>Lengths that are an exact multiple of the spacing\<close>

lemma seg_len_same_x: "cx p = cx q \<Longrightarrow> seg_len p q = \<bar>cy q - cy p\<bar>"
  by (simp add: seg_len_def)







text \<open>
  Two points of a result share their place only where the line itself comes back to its
  terminal point at a sampled distance, as a closed ring does at its start; this does not
  depend on the length being a multiple of the spacing. The ring around the unit square,
  of length 4, comes out as its start point twice at the spacing 4 and at the spacing 3
  alike.
\<close>

lemma closed_ring_duplicate:
  "grader (LineString [Coord 0 0 None, Coord 1 0 None, Coord 1 1 None, Coord 0 1 None,
                        Coord 0 0 None]) ''line'' 4
     = ([], Inr (Some [Coord 0 0 None, Coord 0 0 None]))
   \<and> grader (LineString [Coord 0 0 None, Coord 1 0 None, Coord 1 1 None, Coord 0 1 None,
                        Coord 0 0 None]) ''line'' 3
     = ([], Inr (Some [Coord 0 0 None, Coord 0 0 None]))"
  by (simp add: grader_coords_def grader_dists_def py_range_def py_int_def LineString_new_def
      seg_len_same_x seg_len_same_y)

section \<open>Properties of triMeshgen\<close>

subsection \<open>The loops that drop short lines\<close>

lemma keep_long_filter:
  "keep_long parts s acc = acc @ filter (\<lambda>l. line_length l > 1.5 * s) parts"
  by (induction parts arbitrary: acc) simp_all

lemma lines_new_loop_filter:
  "lines_new_loop lines s acc
     = acc @ filter (\<lambda>l. line_length l > 1.5 * s) (flatten_lines lines)"
proof (induction lines s acc rule: lines_new_loop.induct)
  case (1 s acc)
  show ?case by (simp add: flatten_lines_def)
next
  case (2 line lines s acc)
  then show ?case by (simp add: flatten_lines_def)
next
  case (3 parts lines s acc)
  then show ?case by (simp add: flatten_lines_def keep_long_filter)
qed

subsection \<open>The shape of the assembled data\<close>

lemma take2_row: "take 2 (row c) = [cx c, cy c]"
  by (cases c; cases "cz c") simp_all

lemma take2_np_array: "map (take 2) (np_array line) = xy_rows line"
  by (simp add: np_array_def xy_rows_def take2_row)

lemma length_xy_rows [simp]: "length (xy_rows line) = length line"
  by (simp add: xy_rows_def)

lemma butlast_edge_pairs: "butlast (edge_pairs k) = edge_pairs (k - 1)"
  by (cases k) (simp_all add: edge_pairs_def)

lemma shifted_edge_pairs:
  "map (\<lambda>(i, j). (i + off, j + off)) (edge_pairs n) = map (\<lambda>i. (off + i, off + i + 1)) [0..<n]"
  by (simp add: edge_pairs_def add.commute add.left_commute)

lemma closed_edge_pairs:
  "0 < m \<Longrightarrow> butlast (edge_pairs m) @ [(fst (last (edge_pairs m)), 0)] = ring_loop m"
proof (cases m)
  case 0
  then show "0 < m \<Longrightarrow> ?thesis" by simp
next
  case (Suc k)
  have "map (\<lambda>i. (i, i + 1)) [0..<k] = map (\<lambda>i. (i, if Suc i = Suc k then 0 else Suc i)) [0..<k]"
    by (rule map_cong [OF refl]) simp
  then show ?thesis
    unfolding Suc by (simp add: edge_pairs_def ring_loop_def)
qed

lemma boundary_ring:
  "(case boundary bp of
      LineString ring \<Rightarrow> ring
    | MultiLineString rings \<Rightarrow> (case rings of [] \<Rightarrow> [] | ring # others \<Rightarrow> ring))
     = exterior bp"
  by (simp add: boundary_def)

lemma boundary_data_eq:
  "boundary_data bp =
     (if length (exterior bp) \<le> 1 then Inl IndexError
      else Inr \<lparr>vertices = np_array (butlast (exterior bp)),
                segments = ring_loop (length (exterior bp) - 1), regions = None\<rparr>)"
proof (cases "length (exterior bp) \<le> 1")
  case True
  then have "length (butlast (exterior bp)) = 0" by simp
  then have "butlast (exterior bp) = []" by (simp only: length_0_conv)
  with True show ?thesis
    by (simp add: boundary_data_def boundary_ring Let_def edge_pairs_def np_array_def)
next
  case False
  then have m: "0 < length (exterior bp) - 1" by simp
  have "edge_pairs (length (exterior bp) - 1) \<noteq> []"
    using m by (simp add: edge_pairs_def)
  then show ?thesis
    using False closed_edge_pairs [OF m]
    by (simp add: boundary_data_def boundary_ring Let_def np_array_def)
qed

lemma add_line_effect:
  assumes "add_line ws d line = Inr d'"
  shows "vertices d' = vertices d @ xy_rows line"
    and "segments d' = segments d @ (if ws then chain (length (vertices d)) (length line) else [])"
    and "regions d' = regions d"
proof -
  have ne: "np_array line \<noteq> []"
    using assms by (auto simp: add_line_def Let_def split: if_splits)
  obtain verts where v: "vstack (vertices d) (xy_rows line) = Inr verts"
    and d': "d' = d\<lparr>vertices := verts,
        segments := (if ws then segments d @ map (\<lambda>(i, j). (i + length (vertices d), j + length (vertices d)))
                                 (butlast (edge_pairs (length (xy_rows line)))) else segments d)\<rparr>"
    using assms ne
    by (auto simp: add_line_def Let_def take2_np_array split: sum.splits)
  have verts: "verts = vertices d @ xy_rows line"
    using v by (simp add: vstack_def split: if_splits)
  show "vertices d' = vertices d @ xy_rows line"
    by (simp add: d' verts)
  show "segments d' = segments d @ (if ws then chain (length (vertices d)) (length line) else [])"
    by (simp add: d' butlast_edge_pairs shifted_edge_pairs chain_def xy_rows_def)
  show "regions d' = regions d"
    by (simp add: d')
qed

lemma add_lines_effect:
  "add_lines ws d lines = Inr d' \<Longrightarrow>
     vertices d' = vertices d @ concat (map xy_rows lines)
     \<and> segments d' = segments d @ (if ws then chains (length (vertices d)) (map length lines) else [])
     \<and> regions d' = regions d"
proof (induction lines arbitrary: d)
  case Nil
  then show ?case by simp
next
  case (Cons line lines)
  then obtain d1 where d1: "add_line ws d line = Inr d1" and rest: "add_lines ws d1 lines = Inr d'"
    by (auto split: sum.splits)
  note e = add_line_effect [OF d1]
  have len: "length (vertices d1) = length (vertices d) + length line"
    by (simp add: e(1) xy_rows_def)
  from Cons.IH [OF rest] show ?case
    by (simp add: e len)
qed

lemma assemble_structure:
  assumes "assemble bp lines bl rp bd = Inr td"
  shows "1 < length (exterior bp)"
    and "vertices td = np_array (butlast (exterior bp)) @ concat (map xy_rows lines)
           @ (if bd > 0 then concat (map xy_rows bl) else [])"
    and "segments td = ring_loop (length (exterior bp) - 1)
           @ (if bd = 0 then chains (length (exterior bp) - 1) (map length lines) else [])
           @ (if bd > 0
              then chains (length (exterior bp) - 1 + sum_list (map length lines)) (map length bl)
              else [])"
    and "regions td = (if bd > 0 then Some (hd rp) else None)"
    and "bd > 0 \<Longrightarrow> rp \<noteq> []"
proof -
  let ?m = "length (exterior bp) - 1"
  let ?d0 = "\<lparr>vertices = np_array (butlast (exterior bp)), segments = ring_loop ?m,
              regions = None\<rparr>"
  have long: "\<not> length (exterior bp) \<le> 1"
    using assms by (auto simp: assemble_def boundary_data_eq split: if_splits)
  then show "1 < length (exterior bp)" by simp
  have b: "boundary_data bp = Inr ?d0"
    using long by (simp add: boundary_data_eq)
  obtain d1 where d1: "add_lines (bd = 0) ?d0 lines = Inr d1"
    using assms by (auto simp: assemble_def b split: sum.splits)
  note e1 = add_lines_effect [OF d1]
  have len0: "length (vertices ?d0) = ?m" by (simp add: np_array_def)
  have sumlen: "length (concat (map xy_rows lines)) = sum_list (map length lines)"
    by (simp add: length_concat comp_def)
  have len1: "length (vertices d1) = ?m + sum_list (map length lines)"
    using e1 by (simp add: np_array_def sumlen)
  show "vertices td = np_array (butlast (exterior bp)) @ concat (map xy_rows lines)
           @ (if bd > 0 then concat (map xy_rows bl) else [])"
    and "segments td = ring_loop ?m
           @ (if bd = 0 then chains ?m (map length lines) else [])
           @ (if bd > 0 then chains (?m + sum_list (map length lines)) (map length bl) else [])"
    and "regions td = (if bd > 0 then Some (hd rp) else None)"
    and "bd > 0 \<Longrightarrow> rp \<noteq> []"
  proof -
    show "bd > 0 \<Longrightarrow> rp \<noteq> []"
      using assms d1
      by (auto simp: assemble_def b set_regions_def split: sum.splits list.splits)
    consider (buf) "bd > 0" | (nobuf) "\<not> bd > 0" by blast
    then have "vertices td = np_array (butlast (exterior bp)) @ concat (map xy_rows lines)
           @ (if bd > 0 then concat (map xy_rows bl) else [])
      \<and> segments td = ring_loop ?m
           @ (if bd = 0 then chains ?m (map length lines) else [])
           @ (if bd > 0 then chains (?m + sum_list (map length lines)) (map length bl) else [])
      \<and> regions td = (if bd > 0 then Some (hd rp) else None)"
    proof cases
      case buf
      then obtain d2 where d2: "add_lines True d1 bl = Inr d2"
        and td: "set_regions d2 rp = Inr td"
        using assms d1 by (auto simp: assemble_def b split: sum.splits)
      note e2 = add_lines_effect [OF d2]
      obtain r rs where rp: "rp = r # rs" and td': "td = d2\<lparr>regions := Some r\<rparr>"
        using td by (auto simp: set_regions_def split: list.splits)
      from buf show ?thesis
        using e1 e2 len0 by (simp add: td' rp sumlen)
    next
      case nobuf
      then have "td = d1"
        using assms d1 by (simp add: assemble_def b)
      with nobuf show ?thesis
        using e1 len0 by simp
    qed
    then show "vertices td = np_array (butlast (exterior bp)) @ concat (map xy_rows lines)
           @ (if bd > 0 then concat (map xy_rows bl) else [])"
      and "segments td = ring_loop ?m
           @ (if bd = 0 then chains ?m (map length lines) else [])
           @ (if bd > 0 then chains (?m + sum_list (map length lines)) (map length bl) else [])"
      and "regions td = (if bd > 0 then Some (hd rp) else None)"
      by simp_all
  qed
qed

lemma ring_loop_bounds:
  assumes "(i, j) \<in> set (ring_loop m)" "2 \<le> m"
  shows "i < m \<and> j < m \<and> i \<noteq> j"
  using assms by (auto simp: ring_loop_def split: if_splits)

lemma chain_bounds:
  assumes "(i, j) \<in> set (chain off k)"
  shows "off \<le> i \<and> j < off + k \<and> j = Suc i"
  using assms by (auto simp: chain_def)

lemma chains_bounds:
  "(i, j) \<in> set (chains off ks) \<Longrightarrow> off \<le> i \<and> j < off + sum_list ks \<and> j = Suc i"
proof (induction ks arbitrary: off)
  case Nil
  then show ?case by simp
next
  case (Cons k ks)
  from Cons.prems consider "(i, j) \<in> set (chain off k)" | "(i, j) \<in> set (chains (off + k) ks)"
    by auto
  then show ?case
  proof cases
    case 1
    from chain_bounds [OF 1] show ?thesis by simp
  next
    case 2
    from Cons.IH [OF 2] show ?thesis by simp
  qed
qed

lemma rep_points_loop_fixed:
  "1 < length parts \<Longrightarrow>
     rep_points_loop lib parts is area acc
       = Inr (acc @ replicate (length is) (row (representative_point lib (parts ! 1)) @ [0, area]))"
proof (induction "is" arbitrary: acc)
  case Nil
  show ?case by simp
next
  case (Cons i "is")
  then show ?case by (simp add: replicate_app_Cons_same)
qed

lemma rep_points_loop_single:
  "length parts = 1 \<Longrightarrow> rep_points_loop lib parts [0..<length parts] area [] = Inl IndexError"
  by (simp add: upt_conv_Cons)

subsection \<open>The worked run, evaluated\<close>

lemma demo_grader1:
  "grader (LineString [Coord 200 200 None, Coord 210 200 None]) ''line'' 5
     = ([], Inr (Some [Coord 200 200 None, Coord 205 200 None, Coord 210 200 None]))"
  by (simp add: grader_coords_def grader_dists_def py_range_def py_int_def LineString_new_def
      seg_len_same_y interpolate_def along_def upt_conv_Cons)

lemma demo_grader2:
  "grader (LineString [Coord 200 600 None, Coord 210 600 None]) ''line'' 5
     = ([], Inr (Some [Coord 200 600 None, Coord 205 600 None, Coord 210 600 None]))"
  by (simp add: grader_coords_def grader_dists_def py_range_def py_int_def LineString_new_def
      seg_len_same_y interpolate_def along_def upt_conv_Cons)

lemma demo_lines_new:
  "lines_new demo_lines 5
     = [[Coord 200 200 None, Coord 210 200 None], [Coord 200 600 None, Coord 210 600 None]]"
  by (simp add: demo_lines_def lines_new_def seg_len_same_y)

lemma demo_graded_lines: "graded_lines demo_lines [] 5 = Inr demo_graded"
  unfolding graded_lines_def demo_lines_new
  by (simp add: graded_def demo_grader1 demo_grader2 polygons_new_def demo_graded_def
      del: grader.simps)

lemma demo_buf_union:
  "buf_union_of box_library demo_graded 5 25
     = MultiPolygon [box 175 175 235 225, box 175 575 235 625]"
  by (simp add: buf_union_of_def box_library_def demo_graded_def collect_def)

lemma demo_rep_points:
  "rep_points_of box_library (MultiPolygon [box 175 175 235 225, box 175 575 235 625]) 125
     = Inr [[205, 600, 0, 125], [205, 600, 0, 125]]"
  by (simp add: rep_points_of_def box_library_def box_centre_def box_def upt_conv_Cons)

lemma demo_buf_lines:
  "buf_lines_of (MultiPolygon [box 175 175 235 225, box 175 575 235 625])
     = [exterior (box 175 175 235 225), exterior (box 175 575 235 625)]"
  by (simp add: buf_lines_of_def boundary_lines_def boundary_def box_def)

lemma demo_boundary_data:
  "boundary_data demo_poly
     = Inr \<lparr>vertices = [[0, 0], [1000, 0], [1000, 800], [0, 800]],
            segments = [(0, 1), (1, 2), (2, 3), (3, 0)], regions = None\<rparr>"
  by (simp add: boundary_data_eq demo_poly_def box_def np_array_def ring_loop_def upt_conv_Cons)

lemma add_line_rows:
  "line \<noteq> [] \<Longrightarrow> width (vertices d) = 2 \<Longrightarrow>
   add_line ws d line =
     Inr (d\<lparr>vertices := vertices d @ xy_rows line,
            segments := segments d @ (if ws then chain (length (vertices d)) (length line) else [])\<rparr>)"
proof -
  assume ne: "line \<noteq> []" and w: "width (vertices d) = 2"
  then obtain c cs where l: "line = c # cs" by (cases line) simp_all
  have w2: "width (xy_rows line) = 2" by (simp add: l xy_rows_def)
  have "vstack (vertices d) (xy_rows line) = Inr (vertices d @ xy_rows line)"
    by (simp add: vstack_def w w2)
  moreover have "np_array line \<noteq> []" using ne by (simp add: np_array_def)
  ultimately show ?thesis
    by (simp add: add_line_def Let_def take2_np_array butlast_edge_pairs shifted_edge_pairs
        chain_def)
qed

lemma demo_run_buffered:
  "triMeshgen_tri_data box_library demo_poly demo_lines [] 5 25 = Inr demo_data_buffered"
proof -
  have a: "assemble demo_poly demo_graded
             [exterior (box 175 175 235 225), exterior (box 175 575 235 625)]
             [[205, 600, 0, 125], [205, 600, 0, 125]] 25 = Inr demo_data_buffered"
    by (simp add: assemble_def demo_boundary_data demo_graded_def box_def add_line_rows
        xy_rows_def chain_def set_regions_def demo_data_buffered_def upt_conv_Cons)
  show ?thesis
    by (simp add: triMeshgen_tri_data_def demo_graded_lines demo_buf_union demo_rep_points
        demo_buf_lines a)
qed

lemma demo_run_plain:
  "triMeshgen_tri_data box_library demo_poly demo_lines [] 5 0 = Inr demo_data_plain"
proof -
  have a: "assemble demo_poly demo_graded [] [] 0 = Inr demo_data_plain"
    by (simp add: assemble_def demo_boundary_data demo_graded_def add_line_rows
        xy_rows_def chain_def demo_data_plain_def upt_conv_Cons)
  show ?thesis
    by (simp add: triMeshgen_tri_data_def demo_graded_lines a)
qed

lemma run_assemble:
  assumes "triMeshgen_tri_data lib bp lines polygons s bd = Inr td"
  obtains gl bl rp where "graded_lines lines polygons s = Inr gl"
    and "assemble bp gl bl rp bd = Inr td"
    and "bd > 0 \<Longrightarrow> bl = buf_lines_of (buf_union_of lib gl s bd)"
    and "bd > 0 \<Longrightarrow> rep_points_of lib (buf_union_of lib gl s bd) (5 * s\<^sup>2) = Inr rp"
  using assms
  by (auto simp: triMeshgen_tri_data_def Let_def split: sum.splits if_splits)

subsection \<open>Short lines are dropped\<close>

lemma graded_Inr:
  "graded shapein s = Inr g \<Longrightarrow> grader shapein ''line'' s = ([], Inr (Some g))"
  by (cases shapein)
     (auto simp: graded_def split: if_splits sum.splits option.splits list.splits)

lemma grade_all_nth:
  "grade_all shapes s = Inr gs \<Longrightarrow>
     length gs = length shapes \<and> (\<forall>i < length gs. graded (shapes ! i) s = Inr (gs ! i))"
proof (induction shapes arbitrary: gs)
  case Nil
  then show ?case by simp
next
  case (Cons sh shapes)
  then obtain g gs' where g: "graded sh s = Inr g" and r: "grade_all shapes s = Inr gs'"
    and gs: "gs = g # gs'"
    by (auto split: sum.splits)
  from Cons.IH [OF r] show ?case
    by (auto simp: gs g nth_Cons split: nat.splits)
qed

lemma graded_lines_split:
  assumes "graded_lines lines polygons s = Inr gl"
  obtains g1 g2 where
    "grade_all (map LineString (filter (\<lambda>l. line_length l > 1.5 * s) (flatten_lines lines))) s
       = Inr g1"
    and "grade_all (map boundary (polygons_new polygons)) s = Inr g2"
    and "gl = g1 @ g2"
  using assms
  by (auto simp: graded_lines_def lines_new_def lines_new_loop_filter split: sum.splits)

lemma demo_lines_new_short:
  "lines_new (demo_lines @ [LineString [Coord 500 500 None, Coord 507 500 None]]) 5
     = [[Coord 200 200 None, Coord 210 200 None], [Coord 200 600 None, Coord 210 600 None]]"
  by (simp add: demo_lines_def lines_new_def seg_len_same_y)

lemma demo_run_short:
  "triMeshgen_tri_data box_library demo_poly
      (demo_lines @ [LineString [Coord 500 500 None, Coord 507 500 None]]) [] 5 0
     = Inr demo_data_plain"
proof -
  have "graded_lines (demo_lines @ [LineString [Coord 500 500 None, Coord 507 500 None]]) [] 5
      = graded_lines demo_lines [] 5"
    by (simp only: graded_lines_def demo_lines_new_short demo_lines_new)
  with demo_run_plain show ?thesis
    by (simp add: triMeshgen_tri_data_def)
qed

text \<open>
  Claim C6. The lines kept by \<open>triMeshgen\<close> are the simple lines of the flattened input
  whose length exceeds \<open>1.5 * target_length\<close>, in their order: a simple line of the
  flattened input with length at most \<open>1.5 * target_length\<close> is not among them, and one
  with a greater length is. These are the lines that reach the assembly: on every run that
  assembles its data, the vertex rows after those of the bounding polygon are the rows of
  the graded kept lines, one graded line for each kept line and in their order, followed
  by the rows of the graded boundaries of the \<open>polygons\<close> argument and, with a positive
  buffer distance, by those of the buffer boundaries.
\<close>

theorem degenerate_filtering:
  "lines_new lines s = filter (\<lambda>l. line_length l > 1.5 * s) (flatten_lines lines)
   \<and> (\<forall>l \<in> set (flatten_lines lines).
         (line_length l \<le> 1.5 * s \<longrightarrow> l \<notin> set (lines_new lines s))
       \<and> (line_length l > 1.5 * s \<longrightarrow> l \<in> set (lines_new lines s)))
   \<and> (\<forall>lib bp polygons bd td.
         triMeshgen_tri_data lib bp lines polygons s bd = Inr td \<longrightarrow>
         (\<exists>g1 g2.
            grade_all (map LineString
                (filter (\<lambda>l. line_length l > 1.5 * s) (flatten_lines lines))) s = Inr g1
          \<and> grade_all (map boundary (polygons_new polygons)) s = Inr g2
          \<and> length g1 = length (filter (\<lambda>l. line_length l > 1.5 * s) (flatten_lines lines))
          \<and> (\<forall>i < length g1.
                grader (LineString
                    (filter (\<lambda>l. line_length l > 1.5 * s) (flatten_lines lines) ! i)) ''line'' s
                  = ([], Inr (Some (g1 ! i))))
          \<and> vertices td = np_array (butlast (exterior bp)) @ concat (map xy_rows (g1 @ g2))
              @ (if bd > 0
                 then concat (map xy_rows (buf_lines_of (buf_union_of lib (g1 @ g2) s bd)))
                 else [])))"
proof (intro conjI allI impI)
  show "lines_new lines s = filter (\<lambda>l. line_length l > 1.5 * s) (flatten_lines lines)"
    by (simp add: lines_new_def lines_new_loop_filter)
  show "\<forall>l \<in> set (flatten_lines lines).
         (line_length l \<le> 1.5 * s \<longrightarrow> l \<notin> set (lines_new lines s))
       \<and> (line_length l > 1.5 * s \<longrightarrow> l \<in> set (lines_new lines s))"
    by (auto simp: lines_new_def lines_new_loop_filter)
next
  fix lib bp polygons bd td
  let ?kept = "filter (\<lambda>l. line_length l > 1.5 * s) (flatten_lines lines)"
  assume run: "triMeshgen_tri_data lib bp lines polygons s bd = Inr td"
  obtain gl bl rp where gl: "graded_lines lines polygons s = Inr gl"
    and a: "assemble bp gl bl rp bd = Inr td"
    and bl: "bd > 0 \<Longrightarrow> bl = buf_lines_of (buf_union_of lib gl s bd)"
    using run by (rule run_assemble) blast
  obtain g1 g2 where g1: "grade_all (map LineString ?kept) s = Inr g1"
    and g2: "grade_all (map boundary (polygons_new polygons)) s = Inr g2"
    and split: "gl = g1 @ g2"
    using gl by (rule graded_lines_split)
  note n = grade_all_nth [OF g1]
  have len: "length g1 = length ?kept" using n by simp
  have each: "grader (LineString (?kept ! i)) ''line'' s = ([], Inr (Some (g1 ! i)))"
    if "i < length g1" for i
  proof -
    from n that have "graded (map LineString ?kept ! i) s = Inr (g1 ! i)" by blast
    moreover have "map LineString ?kept ! i = LineString (?kept ! i)"
      using that len by simp
    ultimately show ?thesis by (simp add: graded_Inr del: grader.simps)
  qed
  have v: "vertices td = np_array (butlast (exterior bp)) @ concat (map xy_rows (g1 @ g2))
              @ (if bd > 0
                 then concat (map xy_rows (buf_lines_of (buf_union_of lib (g1 @ g2) s bd)))
                 else [])"
    using assemble_structure(2) [OF a] bl unfolding split by simp
  from g1 g2 len each v
  show "\<exists>g1 g2.
            grade_all (map LineString ?kept) s = Inr g1
          \<and> grade_all (map boundary (polygons_new polygons)) s = Inr g2
          \<and> length g1 = length ?kept
          \<and> (\<forall>i < length g1.
                grader (LineString (?kept ! i)) ''line'' s = ([], Inr (Some (g1 ! i))))
          \<and> vertices td = np_array (butlast (exterior bp)) @ concat (map xy_rows (g1 @ g2))
              @ (if bd > 0
                 then concat (map xy_rows (buf_lines_of (buf_union_of lib (g1 @ g2) s bd)))
                 else [])"
    by blast
qed

theorem degenerate_filtering_witness:
  "[Coord 500 500 None, Coord 507 500 None]
      \<in> set (flatten_lines (demo_lines @ [LineString [Coord 500 500 None, Coord 507 500 None]]))
   \<and> line_length [Coord 500 500 None, Coord 507 500 None] \<le> 1.5 * 5
   \<and> [Coord 500 500 None, Coord 507 500 None]
      \<notin> set (lines_new (demo_lines @ [LineString [Coord 500 500 None, Coord 507 500 None]]) 5)
   \<and> [Coord 200 200 None, Coord 210 200 None]
      \<in> set (flatten_lines (demo_lines @ [LineString [Coord 500 500 None, Coord 507 500 None]]))
   \<and> line_length [Coord 200 200 None, Coord 210 200 None] > 1.5 * 5
   \<and> [Coord 200 200 None, Coord 210 200 None]
      \<in> set (lines_new (demo_lines @ [LineString [Coord 500 500 None, Coord 507 500 None]]) 5)
   \<and> triMeshgen_tri_data box_library demo_poly
        (demo_lines @ [LineString [Coord 500 500 None, Coord 507 500 None]]) [] 5 0
      = Inr demo_data_plain
   \<and> (\<exists>g1 g2.
         grade_all (map LineString
             (filter (\<lambda>l. line_length l > 1.5 * 5)
                (flatten_lines
                   (demo_lines @ [LineString [Coord 500 500 None, Coord 507 500 None]])))) 5
           = Inr g1
       \<and> grade_all (map boundary (polygons_new [])) 5 = Inr g2
       \<and> vertices demo_data_plain
           = np_array (butlast (exterior demo_poly)) @ concat (map xy_rows (g1 @ g2))
               @ (if (0::real) > 0
                  then concat (map xy_rows (buf_lines_of (buf_union_of box_library (g1 @ g2) 5 0)))
                  else []))"
proof -
  let ?short = "[Coord 500 500 None, Coord 507 500 None]"
  let ?long = "[Coord 200 200 None, Coord 210 200 None]"
  let ?lines = "demo_lines @ [LineString ?short]"
  note t = degenerate_filtering [of ?lines 5]
  note t2 = conjunct1 [OF conjunct2 [OF t]]
  note t3 = conjunct2 [OF conjunct2 [OF t]]
  have ms: "?short \<in> set (flatten_lines ?lines)"
    by (simp add: flatten_lines_def demo_lines_def)
  have ml: "?long \<in> set (flatten_lines ?lines)"
    by (simp add: flatten_lines_def demo_lines_def)
  have ls: "line_length ?short \<le> 1.5 * 5" by (simp add: seg_len_same_y)
  have ll: "line_length ?long > 1.5 * 5" by (simp add: seg_len_same_y)
  have rs: "?short \<notin> set (lines_new ?lines 5)"
    by (rule mp [OF conjunct1 [OF bspec [OF t2 ms]] ls])
  have rl: "?long \<in> set (lines_new ?lines 5)"
    by (rule mp [OF conjunct2 [OF bspec [OF t2 ml]] ll])
  from t3 demo_run_short
  obtain g1 g2 where
    "grade_all (map LineString (filter (\<lambda>l. line_length l > 1.5 * 5) (flatten_lines ?lines))) 5
       = Inr g1"
    and "grade_all (map boundary (polygons_new [])) 5 = Inr g2"
    and "vertices demo_data_plain
           = np_array (butlast (exterior demo_poly)) @ concat (map xy_rows (g1 @ g2))
               @ (if (0::real) > 0
                  then concat (map xy_rows (buf_lines_of (buf_union_of box_library (g1 @ g2) 5 0)))
                  else [])"
    by blast
  with ms ls rs ml ll rl demo_run_short show ?thesis by blast
qed

lemma ring_loop_lt: "(i, j) \<in> set (ring_loop m) \<Longrightarrow> i < m \<and> j < m"
  by (auto simp: ring_loop_def)

lemma sum_length_rows: "length (concat (map xy_rows lines)) = sum_list (map length lines)"
  by (simp add: length_concat comp_def)

subsection \<open>Segments refer to vertices\<close>

text \<open>
  Claim C2. Whenever \<open>triMeshgen\<close> assembles its data, for any lines, polygons, spacing,
  buffer distance and geometry library, and for a bounding polygon whose ring has at least
  three coordinates (the ring of a polygon has four or more), both indices of every segment
  are below the number of vertex rows, and the two indices differ.
\<close>

theorem segment_indices_valid:
  assumes "triMeshgen_tri_data lib bp lines polygons s bd = Inr td"
    and "3 \<le> length (exterior bp)"
  shows "\<forall>(i, j) \<in> set (segments td).
           i < length (vertices td) \<and> j < length (vertices td) \<and> i \<noteq> j"
proof -
  obtain gl bl rp where a: "assemble bp gl bl rp bd = Inr td"
    using assms(1) by (rule run_assemble) blast
  let ?m = "length (exterior bp) - 1"
  let ?nl = "sum_list (map length gl)"
  let ?nb = "sum_list (map length bl)"
  have m: "2 \<le> ?m" using assms(2) by simp
  have len: "length (vertices td) = ?m + ?nl + (if bd > 0 then ?nb else 0)"
    by (simp add: assemble_structure(2) [OF a] np_array_def sum_length_rows)
  have segs: "set (segments td) \<subseteq> set (ring_loop ?m)
       \<union> (if bd = 0 then set (chains ?m (map length gl)) else {})
       \<union> (if bd > 0 then set (chains (?m + ?nl) (map length bl)) else {})"
    by (simp add: assemble_structure(3) [OF a])
  have "i < length (vertices td) \<and> j < length (vertices td) \<and> i \<noteq> j"
    if "(i, j) \<in> set (segments td)" for i j
  proof -
    from that segs consider
        (ring) "(i, j) \<in> set (ring_loop ?m)"
      | (lines) "bd = 0" "(i, j) \<in> set (chains ?m (map length gl))"
      | (bufs) "bd > 0" "(i, j) \<in> set (chains (?m + ?nl) (map length bl))"
      by (auto split: if_splits)
    then show ?thesis
    proof cases
      case ring
      from ring_loop_bounds [OF ring m] show ?thesis by (simp add: len)
    next
      case lines
      from chains_bounds [OF lines(2)] show ?thesis by (simp add: len)
    next
      case bufs
      from chains_bounds [OF bufs(2)] bufs(1) show ?thesis by (simp add: len)
    qed
  qed
  then show ?thesis by blast
qed

theorem segment_indices_valid_witness:
  "triMeshgen_tri_data box_library demo_poly demo_lines [] 5 25 = Inr demo_data_buffered
   \<and> 3 \<le> length (exterior demo_poly)
   \<and> (18, 19) \<in> set (segments demo_data_buffered)
   \<and> 18 < length (vertices demo_data_buffered)
   \<and> 19 < length (vertices demo_data_buffered)
   \<and> (18::nat) \<noteq> 19"
proof -
  have h: "3 \<le> length (exterior demo_poly)"
    by (simp add: demo_poly_def box_def)
  have mem: "(18, 19) \<in> set (segments demo_data_buffered)"
    by (simp add: demo_data_buffered_def)
  have c: "18 < length (vertices demo_data_buffered)
      \<and> 19 < length (vertices demo_data_buffered) \<and> (18::nat) \<noteq> 19"
    using bspec [OF segment_indices_valid [OF demo_run_buffered h] mem] by simp
  from demo_run_buffered h mem c show ?thesis by blast
qed

subsection \<open>Segments come from the lines or from the buffer boundaries, never both\<close>

text \<open>
  Claim C3. Let \<open>m\<close> be the number of boundary vertices and let the graded lines have
  \<open>n\<close> coordinates in all; the vertex rows are those of the boundary, then those of the
  graded lines at the indices \<open>m, ..., m + n - 1\<close>, then, with a positive buffer distance,
  those of the buffer boundaries. With a positive buffer distance the segments are the
  boundary loop followed by one open chain for each buffer boundary line, and no segment
  has an index of a graded-line vertex. With buffer distance zero the segments are the
  boundary loop followed by one open chain for each graded line, and there are no vertices
  or segments of buffer boundaries.
\<close>

theorem constraint_source_exclusive:
  assumes "triMeshgen_tri_data lib bp lines polygons s bd = Inr td"
    and "graded_lines lines polygons s = Inr gl"
  shows "(0 < bd \<longrightarrow>
            vertices td = np_array (butlast (exterior bp)) @ concat (map xy_rows gl)
              @ concat (map xy_rows (buf_lines_of (buf_union_of lib gl s bd)))
          \<and> segments td = ring_loop (length (exterior bp) - 1)
              @ chains (length (exterior bp) - 1 + sum_list (map length gl))
                  (map length (buf_lines_of (buf_union_of lib gl s bd)))
          \<and> (\<forall>(i, j) \<in> set (segments td).
                \<not> (length (exterior bp) - 1 \<le> i
                     \<and> i < length (exterior bp) - 1 + sum_list (map length gl))
              \<and> \<not> (length (exterior bp) - 1 \<le> j
                     \<and> j < length (exterior bp) - 1 + sum_list (map length gl))))
       \<and> (bd = 0 \<longrightarrow>
            vertices td = np_array (butlast (exterior bp)) @ concat (map xy_rows gl)
          \<and> segments td = ring_loop (length (exterior bp) - 1)
              @ chains (length (exterior bp) - 1) (map length gl))"
proof -
  obtain gl' bl rp where g: "graded_lines lines polygons s = Inr gl'"
    and a': "assemble bp gl' bl rp bd = Inr td"
    and bl: "bd > 0 \<Longrightarrow> bl = buf_lines_of (buf_union_of lib gl' s bd)"
    using assms(1) by (rule run_assemble) blast
  have "gl' = gl" using g assms(2) by simp
  with a' bl have a: "assemble bp gl bl rp bd = Inr td"
    and bl: "bd > 0 \<Longrightarrow> bl = buf_lines_of (buf_union_of lib gl s bd)"
    by simp_all
  let ?m = "length (exterior bp) - 1"
  let ?nl = "sum_list (map length gl)"
  note v = assemble_structure(2) [OF a]
  note sg = assemble_structure(3) [OF a]
  show ?thesis
  proof (intro conjI impI)
    assume pos: "0 < bd"
    show "vertices td = np_array (butlast (exterior bp)) @ concat (map xy_rows gl)
              @ concat (map xy_rows (buf_lines_of (buf_union_of lib gl s bd)))"
      using v pos bl by simp
    show s2: "segments td = ring_loop ?m
              @ chains (?m + ?nl) (map length (buf_lines_of (buf_union_of lib gl s bd)))"
      using sg pos bl by simp
    have "\<not> (?m \<le> i \<and> i < ?m + ?nl) \<and> \<not> (?m \<le> j \<and> j < ?m + ?nl)"
      if "(i, j) \<in> set (segments td)" for i j
    proof -
      from that s2 consider "(i, j) \<in> set (ring_loop ?m)"
        | "(i, j) \<in> set (chains (?m + ?nl) (map length (buf_lines_of (buf_union_of lib gl s bd))))"
        by auto
      then show ?thesis
      proof cases
        case 1
        from ring_loop_lt [OF 1] show ?thesis by simp
      next
        case 2
        from chains_bounds [OF 2] show ?thesis by simp
      qed
    qed
    then show "\<forall>(i, j) \<in> set (segments td).
                \<not> (?m \<le> i \<and> i < ?m + ?nl) \<and> \<not> (?m \<le> j \<and> j < ?m + ?nl)"
      by blast
  next
    assume z: "bd = 0"
    show "vertices td = np_array (butlast (exterior bp)) @ concat (map xy_rows gl)"
      using v z by simp
    show "segments td = ring_loop ?m @ chains ?m (map length gl)"
      using sg z by simp
  qed
qed

theorem constraint_source_exclusive_witness:
  "triMeshgen_tri_data box_library demo_poly demo_lines [] 5 25 = Inr demo_data_buffered
   \<and> graded_lines demo_lines [] 5 = Inr demo_graded
   \<and> (0::real) < 25
   \<and> segments demo_data_buffered = ring_loop (length (exterior demo_poly) - 1)
        @ chains (length (exterior demo_poly) - 1 + sum_list (map length demo_graded))
            (map length (buf_lines_of (buf_union_of box_library demo_graded 5 25)))
   \<and> triMeshgen_tri_data box_library demo_poly demo_lines [] 5 0 = Inr demo_data_plain
   \<and> segments demo_data_plain = ring_loop (length (exterior demo_poly) - 1)
        @ chains (length (exterior demo_poly) - 1) (map length demo_graded)"
proof -
  have pos: "(0::real) < 25" by simp
  note b = mp [OF conjunct1 [OF constraint_source_exclusive [OF demo_run_buffered demo_graded_lines]] pos]
  note p = mp [OF conjunct2 [OF constraint_source_exclusive [OF demo_run_plain demo_graded_lines]] refl]
  from demo_run_buffered demo_graded_lines pos conjunct1 [OF conjunct2 [OF b]]
    demo_run_plain conjunct2 [OF p]
  show ?thesis by blast
qed

subsection \<open>Seed points of the refinement regions\<close>

text \<open>
  Claim C4 asks that the seed point of every refinement region lie inside the component of
  the buffered union that the region stands for. What the code does for a union of two or
  more components: every round of the loop reads the component with index 1, so each of
  the entries of \<open>rep_points\<close>, one for each component, is seeded at the representative
  point of that one component.
\<close>

theorem rep_points_fixed_index:
  assumes "2 \<le> length parts"
  shows "rep_points_of lib (MultiPolygon parts) area
     = Inr (replicate (length parts) (row (representative_point lib (parts ! 1)) @ [0, area]))"
proof -
  have "1 < length parts" using assms by simp
  then show ?thesis
    by (simp add: rep_points_of_def rep_points_loop_fixed)
qed

theorem rep_points_fixed_index_witness:
  "2 \<le> length [box 175 175 235 225, box 175 575 235 625]
   \<and> rep_points_of box_library (MultiPolygon [box 175 175 235 225, box 175 575 235 625]) 125
      = Inr (replicate (length [box 175 175 235 225, box 175 575 235 625])
               (row (representative_point box_library
                      ([box 175 175 235 225, box 175 575 235 625] ! 1)) @ [0, 125]))
   \<and> representative_point box_library ([box 175 175 235 225, box 175 575 235 625] ! 1)
      = Coord 205 600 None
   \<and> \<not> inside_box 175 175 235 225 (Coord 205 600 None)
   \<and> inside_box 175 575 235 625 (Coord 205 600 None)"
proof -
  have h: "2 \<le> length [box 175 175 235 225, box 175 575 235 625]" by simp
  have c: "representative_point box_library ([box 175 175 235 225, box 175 575 235 625] ! 1)
      = Coord 205 600 None"
    by (simp add: box_library_def box_centre_def box_def)
  have o: "\<not> inside_box 175 175 235 225 (Coord 205 600 None)"
    by (simp add: inside_box_def)
  have i: "inside_box 175 575 235 625 (Coord 205 600 None)"
    by (simp add: inside_box_def)
  from h rep_points_fixed_index [OF h, of box_library 125] c o i show ?thesis by blast
qed

subsection \<open>The regions entry\<close>

text \<open>
  Claim C5 asks for one refinement region for each component of the buffered union, all of
  them attached as the regions entry. What the code does on a run with a positive buffer
  distance: the regions entry is the first entry of \<open>rep_points\<close> alone, with the area
  \<open>5 * target_length\<^sup>2\<close>. For a union that is one polygon this is the region of that
  polygon; for a union of several components, which are two or more on every run that
  assembles its data, it is one region, seeded in the component with index 1.
\<close>

theorem regions_single_entry:
  assumes "triMeshgen_tri_data lib bp lines polygons s bd = Inr td"
    and "0 < bd"
    and "graded_lines lines polygons s = Inr gl"
  shows "(\<forall>poly. buf_union_of lib gl s bd = Polygon poly \<longrightarrow>
            regions td = Some (row (representative_point lib poly) @ [0, 5 * s\<^sup>2]))
       \<and> (\<forall>parts. buf_union_of lib gl s bd = MultiPolygon parts \<longrightarrow>
            2 \<le> length parts
            \<and> regions td = Some (row (representative_point lib (parts ! 1)) @ [0, 5 * s\<^sup>2]))"
proof -
  obtain gl' bl rp where g: "graded_lines lines polygons s = Inr gl'"
    and a: "assemble bp gl' bl rp bd = Inr td"
    and rp': "bd > 0 \<Longrightarrow> rep_points_of lib (buf_union_of lib gl' s bd) (5 * s\<^sup>2) = Inr rp"
    using assms(1) by (rule run_assemble) blast
  have "gl' = gl" using g assms(3) by simp
  with rp' assms(2)
  have rp: "rep_points_of lib (buf_union_of lib gl s bd) (5 * s\<^sup>2) = Inr rp" by simp
  have reg: "regions td = Some (hd rp)"
    using assemble_structure(4) [OF a] assms(2) by simp
  have ne: "rp \<noteq> []"
    using assms(2) by (rule assemble_structure(5) [OF a])
  show ?thesis
  proof (intro conjI allI impI)
    fix poly assume "buf_union_of lib gl s bd = Polygon poly"
    with rp have "rp = [row (representative_point lib poly) @ [0, 5 * s\<^sup>2]]"
      by (simp add: rep_points_of_def)
    with reg show "regions td = Some (row (representative_point lib poly) @ [0, 5 * s\<^sup>2])"
      by simp
  next
    fix parts assume mp: "buf_union_of lib gl s bd = MultiPolygon parts"
    with rp have loop: "rep_points_loop lib parts [0..<length parts] (5 * s\<^sup>2) [] = Inr rp"
      by (simp add: rep_points_of_def)
    show two: "2 \<le> length parts"
    proof (rule ccontr)
      assume "\<not> 2 \<le> length parts"
      then consider "length parts = 0" | "length parts = 1" by linarith
      then show False
      proof cases
        case 1
        with loop ne show False by simp
      next
        case 2
        with loop rep_points_loop_single [OF 2, of lib "5 * s\<^sup>2"] show False by simp
      qed
    qed
    then have "1 < length parts" by simp
    from rep_points_loop_fixed [OF this, of lib "[0..<length parts]" "5 * s\<^sup>2" "[]"] loop
    have "rp = replicate (length parts) (row (representative_point lib (parts ! 1)) @ [0, 5 * s\<^sup>2])"
      by simp
    with two reg
    show "regions td = Some (row (representative_point lib (parts ! 1)) @ [0, 5 * s\<^sup>2])"
      by (cases "length parts") simp_all
  qed
qed

theorem regions_single_entry_witness:
  "triMeshgen_tri_data box_library demo_poly demo_lines [] 5 25 = Inr demo_data_buffered
   \<and> (0::real) < 25
   \<and> graded_lines demo_lines [] 5 = Inr demo_graded
   \<and> buf_union_of box_library demo_graded 5 25
        = MultiPolygon [box 175 175 235 225, box 175 575 235 625]
   \<and> 2 \<le> length [box 175 175 235 225, box 175 575 235 625]
   \<and> regions demo_data_buffered
        = Some (row (representative_point box_library
                       ([box 175 175 235 225, box 175 575 235 625] ! 1)) @ [0, 5 * 5\<^sup>2])"
proof -
  have pos: "(0::real) < 25" by simp
  note t = regions_single_entry [OF demo_run_buffered pos demo_graded_lines]
  note m = mp [OF spec [OF conjunct2 [OF t]] demo_buf_union]
  from demo_run_buffered pos demo_graded_lines demo_buf_union m show ?thesis by blast
qed

subsection \<open>Z-coordinates of the bounding polygon\<close>

text \<open>
  Claim C10 asks that no vertex row keep a z-coordinate. The rows of the lines and of the
  buffer boundaries are cut to \<open>(x, y)\<close>; the rows of the bounding polygon are not. A
  bounding triangle with z-coordinates and no lines gives vertex rows of three numbers,
  and with a line the stacking of its two-column rows under the three-column rows raises.
\<close>

theorem boundary_keeps_z:
  "triMeshgen_tri_data lib
      \<lparr>exterior = [Coord 0 0 (Some 1), Coord 4 0 (Some 1), Coord 4 3 (Some 1), Coord 0 0 (Some 1)],
       interiors = []\<rparr> [] [] 5 0
     = Inr \<lparr>vertices = [[0, 0, 1], [4, 0, 1], [4, 3, 1]],
            segments = [(0, 1), (1, 2), (2, 0)], regions = None\<rparr>
   \<and> triMeshgen_tri_data lib
      \<lparr>exterior = [Coord 0 0 (Some 1), Coord 4 0 (Some 1), Coord 4 3 (Some 1), Coord 0 0 (Some 1)],
       interiors = []\<rparr> [LineString [Coord 1 1 (Some 1), Coord 3 1 (Some 1)]] [] 1 0
     = Inl ValueError"
proof -
  have g0: "graded_lines [] [] 5 = Inr []"
    by (simp add: graded_lines_def lines_new_def polygons_new_def)
  have gr: "grader (LineString [Coord 1 1 (Some 1), Coord 3 1 (Some 1)]) ''line'' 1
     = ([], Inr (Some [Coord 1 1 (Some 1), Coord 2 1 (Some 1), Coord 3 1 (Some 1)]))"
    by (simp add: grader_coords_def grader_dists_def py_range_def py_int_def LineString_new_def
      seg_len_same_y interpolate_def along_def upt_conv_Cons)
  have g1: "graded_lines [LineString [Coord 1 1 (Some 1), Coord 3 1 (Some 1)]] [] 1
     = Inr [[Coord 1 1 (Some 1), Coord 2 1 (Some 1), Coord 3 1 (Some 1)]]"
    by (simp add: graded_lines_def lines_new_def polygons_new_def seg_len_same_y graded_def gr
        del: grader.simps)
  have b: "boundary_data
      \<lparr>exterior = [Coord 0 0 (Some 1), Coord 4 0 (Some 1), Coord 4 3 (Some 1), Coord 0 0 (Some 1)],
       interiors = []\<rparr>
     = Inr \<lparr>vertices = [[0, 0, 1], [4, 0, 1], [4, 3, 1]],
            segments = [(0, 1), (1, 2), (2, 0)], regions = None\<rparr>"
    by (simp add: boundary_data_eq np_array_def ring_loop_def upt_conv_Cons)
  show ?thesis
    by (simp add: triMeshgen_tri_data_def g0 g1 assemble_def b add_line_def np_array_def
        vstack_def Let_def)
qed

end
